theory Spec2Isabelle
  imports Main
begin

section \<open>Errors\<close>

text \<open>Errors are values. The named constructors are the errors the code tests for or
  creates itself; \<open>OtherError\<close> is any other error of a library.\<close>

datatype error =
    NoErrAlreadyUpToDate
  | ErrRepositoryAlreadyExists
  | EOF
  | MalformedChange
  | RefNotFound
  | ValidationError
  | ErrRepositoryNotExists
  | SkipDir
  | OtherError string

section \<open>The objects of the version-control library\<close>

text \<open>
  The library's objects, as far as the code reads them. A commit object holds its
  parents: the object graph of a repository is acyclic, so the walk along parents is a
  structural recursion. A parent that cannot be loaded is an \<open>Inl\<close> entry. A tree is the
  list of its (path, blob hash) entries; the code only hands trees to the library's
  tree-diff primitive.
\<close>

type_synonym object_Tree = "(string \<times> string) list"

datatype object_Commit =
  object_Commit (Hash: string) (AuthorName: string) (AuthorEmail: string) (AuthorWhen: int)
    (CommitMessage: string) (Tree: "error + object_Tree") (Parents: "(error + object_Commit) list")

text \<open>\<^verbatim>\<open>c.Parents().Next()\<close>: the first parent, \<^verbatim>\<open>io.EOF\<close> when there is none.\<close>

fun Parents_Next :: "object_Commit \<Rightarrow> error + object_Commit" where
  "Parents_Next (object_Commit h an ae aw m t []) = Inl EOF"
| "Parents_Next (object_Commit h an ae aw m t (p # ps)) = p"

text \<open>A \<^verbatim>\<open>ChangeEntry\<close> of the library: the zero value stands for "no entry on this
  side". \<open>TreePtr\<close> is the pointer to the enclosing tree (\<open>None\<close> is nil).\<close>

record ChangeEntry =
  Name :: string
  TreePtr :: "string option"
  EntryName :: string
  EntryMode :: nat
  EntryHash :: string

definition empty :: ChangeEntry where
  "empty = \<lparr>ChangeEntry.Name = [], TreePtr = None, EntryName = [], EntryMode = 0, EntryHash = []\<rparr>"

record object_Change =
  From :: ChangeEntry
  To :: ChangeEntry

datatype merkletrie_Action = Insert | Delete | Modify

text \<open>\<^verbatim>\<open>Change.Action()\<close> of the library: an error when both sides are empty, an insertion
  when only the from side is, a deletion when only the to side is, else a modification.\<close>

definition Action :: "object_Change \<Rightarrow> error + merkletrie_Action" where
  "Action c =
     (if object_Change.From c = empty \<and> object_Change.To c = empty then Inl MalformedChange
      else if object_Change.From c = empty then Inr Insert
      else if object_Change.To c = empty then Inr Delete
      else Inr Modify)"

section \<open>Data model\<close>

text \<open>
  The repository's own structs are records with the source's field names. Several
  structs share a field name (\<open>Name\<close>, \<open>Sha\<close>, \<open>When\<close>, \<open>Author\<close>); where that happens
  the field is written qualified by its record, as in \<open>Commit.Sha\<close>.
\<close>

datatype ChangeType = ChangeTypeUpdate | ChangeTypeCreate | ChangeTypeDelete | ChangeTypeInit

record FileChange =
  Filepath :: string
  ChangeType :: ChangeType

record Author =
  Name :: string
  Email :: string

text \<open>\<open>Commit\<close> of \<^verbatim>\<open>unnamed/part_001\<close>: commit metadata. \<open>When\<close> is an instant
  (seconds); \<^verbatim>\<open>.UTC()\<close> changes the time zone of a \<^verbatim>\<open>time.Time\<close>, not its instant.\<close>

record Commit =
  Sha :: string
  When :: int
  Author :: Author
  Message :: string

text \<open>
  Every bundle type of the repository carries a \<open>Changes\<close> slice: \<open>CommitDiff\<close> of
  \<^verbatim>\<open>unnamed/part_001\<close> (\<open>Changes\<close>, \<open>From\<close>, \<open>To\<close>) and \<open>Commit\<close> of \<^verbatim>\<open>git.go\<close>
  (\<open>Changes\<close>, \<open>Sha\<close>, \<open>When\<close>). \<open>Poll\<close> and \<open>loop\<close> of \<^verbatim>\<open>gpoll.go\<close> touch only that
  field, so both bundle types extend one record holding it and those two functions are
  modelled once, over any extension. The bundle of \<^verbatim>\<open>git.go\<close> is named \<open>CommitBatch\<close>
  here, since \<^verbatim>\<open>unnamed/part_001\<close> reuses the name \<open>Commit\<close> for the metadata struct.
\<close>

record ChangeBatch =
  Changes :: "FileChange list"

record CommitDiff = ChangeBatch +
  From :: Commit
  To :: Commit

record CommitBatch = ChangeBatch +
  Sha :: string
  When :: int

section \<open>The repository handle\<close>

text \<open>
  The answers of the library for one call of \<open>DiffRemote\<close>, in the order the code asks:
  \<^verbatim>\<open>repo.Fetch\<close>, \<^verbatim>\<open>repo.Head\<close>, \<^verbatim>\<open>repo.Remote\<close>, \<^verbatim>\<open>rem.List\<close> (the references as
  (name, hash) pairs), \<^verbatim>\<open>repo.CommitObject\<close>, \<^verbatim>\<open>fromTree.Diff(toTree)\<close>,
  \<^verbatim>\<open>repo.Worktree\<close> and \<^verbatim>\<open>wt.Pull\<close>. An answer of type \<open>error option\<close> is the returned
  \<^verbatim>\<open>err\<close> (\<open>None\<close> is nil).
\<close>

record Repository =
  Fetch :: "error option"
  Head :: "error + string"
  Remote :: "error option"
  List :: "error + (string \<times> string) list"
  CommitObject :: "string \<Rightarrow> error + object_Commit"
  Tree_Diff :: "object_Tree \<Rightarrow> object_Tree \<Rightarrow> error + object_Change list"
  Worktree :: "error option"
  Pull :: "error option"

section \<open>The diff engine and the ancestry walk (\<^verbatim>\<open>unnamed/part_001\<close>)\<close>

definition ToInternal :: "object_Commit \<Rightarrow> Commit" where
  "ToInternal c =
     \<lparr>Commit.Sha = Hash c, Commit.When = AuthorWhen c,
      Author = \<lparr>Author.Name = AuthorName c, Email = AuthorEmail c\<rparr>,
      Message = CommitMessage c\<rparr>"

text \<open>The body of the loop of \<open>Diff\<close> over the library's changes: the switch on the action
  (a \<open>FileChange\<close> starts as the zero value, whose type is \<open>ChangeTypeUpdate\<close>), then the
  choice of the path.\<close>

definition Diff_change :: "object_Change \<Rightarrow> error + FileChange" where
  "Diff_change d =
     (case Action d of
        Inl err \<Rightarrow> Inl err
      | Inr a \<Rightarrow>
          let ct = (case a of Modify \<Rightarrow> ChangeTypeUpdate
                            | Delete \<Rightarrow> ChangeTypeDelete
                            | Insert \<Rightarrow> ChangeTypeCreate)
          in Inr \<lparr>Filepath = (if ct = ChangeTypeDelete
                               then ChangeEntry.Name (object_Change.From d)
                               else ChangeEntry.Name (object_Change.To d)),
                  ChangeType = ct\<rparr>)"

fun Diff_loop :: "object_Change list \<Rightarrow> FileChange list \<Rightarrow> error + FileChange list" where
  "Diff_loop [] changes = Inr changes"
| "Diff_loop (d # diffs) changes =
     (case Diff_change d of
        Inl err \<Rightarrow> Inl err
      | Inr gitChange \<Rightarrow> Diff_loop diffs (changes @ [gitChange]))"

definition Diff :: "Repository \<Rightarrow> object_Commit \<Rightarrow> object_Commit \<Rightarrow> error + CommitDiff" where
  "Diff g from to =
     (case Tree to of
        Inl err \<Rightarrow> Inl err
      | Inr toTree \<Rightarrow>
     (case Tree from of
        Inl err \<Rightarrow> Inl err
      | Inr fromTree \<Rightarrow>
     (case Tree_Diff g fromTree toTree of
        Inl err \<Rightarrow> Inl err
      | Inr diffs \<Rightarrow>
     (case Diff_loop diffs [] of
        Inl err \<Rightarrow> Inl err
      | Inr changes \<Rightarrow>
          Inr \<lparr>Changes = changes, From = ToInternal from, To = ToInternal to\<rparr>))))"

text \<open>The first loop of \<open>listCommits\<close>: backwards from \<open>to\<close> along first parents until the
  hash of \<open>from\<close> shows up or the library returns an error.\<close>

function listCommits_walk ::
  "object_Commit \<Rightarrow> object_Commit \<Rightarrow> object_Commit list \<Rightarrow> error + object_Commit list" where
  "listCommits_walk from parent cs =
     (if Hash parent \<noteq> Hash from
      then (case Parents_Next parent of
              Inl err \<Rightarrow> Inl err
            | Inr p \<Rightarrow> listCommits_walk from p (cs @ [parent]))
      else Inr cs)"
  by pat_completeness auto
termination
proof (relation "measure (\<lambda>(from, parent, cs). size parent)")
  show "wf (measure (\<lambda>(from, parent, cs). size parent))"
    by simp
next
  fix "from" parent :: object_Commit and cs :: "object_Commit list" and p :: object_Commit
  assume "Parents_Next parent = Inr p"
  then have "size p < size parent"
    by (cases parent rule: Parents_Next.cases) auto
  then show "((from, p, cs @ [parent]), (from, parent, cs))
               \<in> measure (\<lambda>(from, parent, cs). size parent)"
    by simp
qed

declare listCommits_walk.simps [simp del]

definition listCommits :: "object_Commit \<Rightarrow> object_Commit \<Rightarrow> error + object_Commit list" where
  "listCommits from to =
     (case listCommits_walk from to [] of
        Inl err \<Rightarrow> Inl err
      | Inr cs0 \<Rightarrow>
          let cs = cs0 @ [from];
              l = length cs
          in Inr (map (\<lambda>i. cs ! (l - (i + 1))) [0..<l]))"

definition remoteName :: string where
  "remoteName = ''origin''"

fun find_ref :: "Repository \<Rightarrow> string \<Rightarrow> (string \<times> string) list \<Rightarrow> error + object_Commit" where
  "find_ref repo branchRef [] = Inl RefNotFound"
| "find_ref repo branchRef ((name, hash) # rfs) =
     (if name = branchRef then CommitObject repo hash else find_ref repo branchRef rfs)"

definition FetchLatestRemoteCommit :: "Repository \<Rightarrow> string \<Rightarrow> error + object_Commit" where
  "FetchLatestRemoteCommit repo branch =
     (case Repository.Remote repo of
        Some err \<Rightarrow> Inl err
      | None \<Rightarrow>
     (case List repo of
        Inl err \<Rightarrow> Inl err
      | Inr rfs \<Rightarrow> find_ref repo (''refs/heads/'' @ branch) rfs))"

text \<open>The loop of \<open>DiffRemote\<close> over \<open>commits[1..]\<close>, \<open>from\<close> moving along.\<close>

fun DiffRemote_loop ::
  "Repository \<Rightarrow> object_Commit \<Rightarrow> object_Commit list \<Rightarrow> error + CommitDiff list" where
  "DiffRemote_loop g from [] = Inr []"
| "DiffRemote_loop g from (to # rest) =
     (case Diff g from to of
        Inl err \<Rightarrow> Inl err
      | Inr diff \<Rightarrow>
     (case DiffRemote_loop g to rest of
        Inl err \<Rightarrow> Inl err
      | Inr diffs \<Rightarrow> Inr (diff # diffs)))"

definition DiffRemote :: "Repository \<Rightarrow> string \<Rightarrow> error + CommitDiff list" where
  "DiffRemote repo branch =
     (case (case Fetch repo of
              Some err \<Rightarrow> (if err \<noteq> NoErrAlreadyUpToDate then Some err else None)
            | None \<Rightarrow> None) of
        Some err \<Rightarrow> Inl err
      | None \<Rightarrow>
     (case Head repo of
        Inl err \<Rightarrow> Inl err
      | Inr h \<Rightarrow>
     (case FetchLatestRemoteCommit repo branch of
        Inl err \<Rightarrow> Inl err
      | Inr remCommit \<Rightarrow>
     (case CommitObject repo h of
        Inl err \<Rightarrow> Inl err
      | Inr currentCommit \<Rightarrow>
     (case listCommits currentCommit remCommit of
        Inl err \<Rightarrow> Inl err
      | Inr commits \<Rightarrow>
     (case DiffRemote_loop repo currentCommit (drop 1 commits) of
        Inl err \<Rightarrow> Inl err
      | Inr diffs \<Rightarrow>
     (case Worktree repo of
        Some err \<Rightarrow> Inl err
      | None \<Rightarrow>
     (case Pull repo of
        Some err \<Rightarrow> Inl err
      | None \<Rightarrow> Inr diffs))))))))"

section \<open>Paths (the standard library)\<close>

text \<open>
  \<^verbatim>\<open>path.Join\<close> and, on a system whose separator is \<^verbatim>\<open>/\<close>, \<^verbatim>\<open>filepath.Join\<close>: the
  elements from the first non-empty one on, joined by slashes and cleaned. \<open>Clean\<close>
  works on the components between slashes: empty components and \<^verbatim>\<open>.\<close> are dropped,
  \<^verbatim>\<open>..\<close> removes the component before it, is dropped at the root, and is kept at the
  start of a relative path; the empty result is \<^verbatim>\<open>.\<close>.
\<close>

fun split_slash :: "string \<Rightarrow> string list" where
  "split_slash [] = [[]]"
| "split_slash (c # cs) =
     (if c = CHR ''/'' then [] # split_slash cs
      else (case split_slash cs of [] \<Rightarrow> [[c]] | x # xs \<Rightarrow> (c # x) # xs))"

fun join_slash :: "string list \<Rightarrow> string" where
  "join_slash [] = []"
| "join_slash [x] = x"
| "join_slash (x # y # ys) = x @ ''/'' @ join_slash (y # ys)"

fun Clean_components :: "bool \<Rightarrow> string list \<Rightarrow> string list \<Rightarrow> string list" where
  "Clean_components rooted out [] = out"
| "Clean_components rooted out (x # xs) =
     (if x = [] \<or> x = ''.'' then Clean_components rooted out xs
      else if x = ''..'' then
        (if out \<noteq> [] \<and> last out \<noteq> ''..'' then Clean_components rooted (butlast out) xs
         else if rooted then Clean_components rooted out xs
         else Clean_components rooted (out @ [x]) xs)
      else Clean_components rooted (out @ [x]) xs)"

definition Clean :: "string \<Rightarrow> string" where
  "Clean path =
     (if path = [] then ''.''
      else let rooted = (hd path = CHR ''/'');
               out = Clean_components rooted [] (split_slash path)
           in if rooted then ''/'' @ join_slash out
              else if out = [] then ''.'' else join_slash out)"

definition Join :: "string list \<Rightarrow> string" where
  "Join elem =
     (case dropWhile (\<lambda>e. e = []) elem of
        [] \<Rightarrow> []
      | e # es \<Rightarrow> Clean (join_slash (e # es)))"

text \<open>\<^verbatim>\<open>filepath.Match\<close> for patterns made of literal characters and \<^verbatim>\<open>*\<close>, the only
  ones \<open>onStart\<close> builds: \<^verbatim>\<open>*\<close> matches any run of characters other than the separator,
  and the pattern has to match the whole name.\<close>

fun Match :: "string \<Rightarrow> string \<Rightarrow> bool" where
  "Match [] name = (name = [])"
| "Match (p # ps) [] = (if p = CHR ''*'' then Match ps [] else False)"
| "Match (p # ps) (c # cs) =
     (if p = CHR ''*'' then Match ps (c # cs) \<or> (c \<noteq> CHR ''/'' \<and> Match (p # ps) cs)
      else c = p \<and> Match ps cs)"

text \<open>
  \<^verbatim>\<open>filepath.Walk\<close> over a directory tree. \<open>FileInfo\<close> is what \<^verbatim>\<open>Lstat\<close> finds at a
  path: a file or a directory with its entries in the order of their names, each with
  the answer of its own \<^verbatim>\<open>Lstat\<close> (\<open>None\<close> when that fails). Directories are taken to
  be readable. The walk function gets the path and the error of the visit, and threads
  a state, which stands for the variables its closure captures.
\<close>

datatype FileInfo = File | Dir "(string \<times> FileInfo option) list"

fun IsDir :: "FileInfo \<Rightarrow> bool" where
  "IsDir File = False"
| "IsDir (Dir entries) = True"

type_synonym 's WalkFunc = "string \<Rightarrow> error option \<Rightarrow> 's \<Rightarrow> error option \<times> 's"

fun walk :: "'s WalkFunc \<Rightarrow> string \<Rightarrow> FileInfo \<Rightarrow> 's \<Rightarrow> error option \<times> 's"
  and walk_names ::
    "'s WalkFunc \<Rightarrow> string \<Rightarrow> (string \<times> FileInfo option) list \<Rightarrow> 's \<Rightarrow> error option \<times> 's" where
  "walk walkFn path File s = walkFn path None s"
| "walk walkFn path (Dir names) s =
     (case walkFn path None s of
        (Some err1, s') \<Rightarrow> (Some err1, s')
      | (None, s') \<Rightarrow> walk_names walkFn path names s')"
| "walk_names walkFn path [] s = (None, s)"
| "walk_names walkFn path ((name, None) # names) s =
     (case walkFn (Join [path, name]) (Some (OtherError ''lstat'')) s of
        (Some err, s') \<Rightarrow>
          (if err \<noteq> SkipDir then (Some err, s') else walk_names walkFn path names s')
      | (None, s') \<Rightarrow> walk_names walkFn path names s')"
| "walk_names walkFn path ((name, Some fileInfo) # names) s =
     (case walk walkFn (Join [path, name]) fileInfo s of
        (Some err, s') \<Rightarrow>
          (if \<not> IsDir fileInfo \<or> err \<noteq> SkipDir then (Some err, s')
           else walk_names walkFn path names s')
      | (None, s') \<Rightarrow> walk_names walkFn path names s')"

definition Walk :: "string \<Rightarrow> FileInfo option \<Rightarrow> 's WalkFunc \<Rightarrow> 's \<Rightarrow> error option \<times> 's" where
  "Walk root lstat walkFn s =
     (case (case lstat of
              None \<Rightarrow> walkFn root (Some (OtherError ''lstat'')) s
            | Some info \<Rightarrow> walk walkFn root info s) of
        (err, s') \<Rightarrow> (if err = Some SkipDir then (None, s') else (err, s')))"

section \<open>Configuration and construction (\<^verbatim>\<open>gpoll.go\<close>, \<^verbatim>\<open>git.go\<close>, \<^verbatim>\<open>git_mock.go\<close>)\<close>

record GitAuthConfig =
  SshKey :: string
  Username :: string
  Password :: string

record GitConfig =
  Auth :: GitAuthConfig
  Remote :: string
  Branch :: string
  CloneDirectory :: string

text \<open>The callbacks: the filter is a predicate; the handler is opaque, and each call of
  it is recorded in the trace of effects. \<open>None\<close> is nil. \<open>Interval\<close> is in
  nanoseconds.\<close>

datatype HandleCommitFunc = HandleCommitFunc

record PollConfig =
  Git :: GitConfig
  FileChangeFilter :: "(FileChange \<Rightarrow> bool) option"
  HandleCommit :: "HandleCommitFunc option"
  Interval :: int

datatype AuthMethod = BasicAuth string string | PublicKeys string string

text \<open>What construction reads from its surroundings: \<^verbatim>\<open>os.Getwd\<close>, \<^verbatim>\<open>os.UserHomeDir\<close>
  (its error is dropped by the code, which then has the empty string),
  \<^verbatim>\<open>ioutil.ReadFile\<close> and \<^verbatim>\<open>ssh.ParsePrivateKey\<close> (the signer named by a string).\<close>

record Os =
  Getwd :: "error + string"
  UserHomeDir :: string
  ReadFile :: "string \<Rightarrow> error + string"
  ParsePrivateKey :: "string \<Rightarrow> error + string"

definition usernamePassword :: "string \<Rightarrow> string \<Rightarrow> error + AuthMethod" where
  "usernamePassword username password = Inr (BasicAuth username password)"

definition sshKey :: "Os \<Rightarrow> string \<Rightarrow> error + AuthMethod" where
  "sshKey os key =
     (case ParsePrivateKey os key of
        Inl err \<Rightarrow> Inl err
      | Inr signer \<Rightarrow> Inr (PublicKeys ''git'' signer))"

definition sshKeyFromFile :: "Os \<Rightarrow> string \<Rightarrow> error + AuthMethod" where
  "sshKeyFromFile os fp0 =
     (let fp = (if take 2 fp0 = ''~/'' then Join [UserHomeDir os, drop 2 fp0] else fp0)
      in case ReadFile os fp of
           Inl err \<Rightarrow> Inl err
         | Inr key \<Rightarrow> sshKey os key)"

definition toAuthMethod :: "Os \<Rightarrow> GitAuthConfig \<Rightarrow> error + AuthMethod" where
  "toAuthMethod os config =
     (if SshKey config \<noteq> [] then sshKeyFromFile os (SshKey config)
      else usernamePassword (Username config) (Password config))"

record gitImpl =
  authMethod :: AuthMethod

definition newGit :: "Os \<Rightarrow> GitConfig \<Rightarrow> error + gitImpl" where
  "newGit os config =
     (case toAuthMethod os (Auth config) of
        Inl err \<Rightarrow> Inl err
      | Inr auth \<Rightarrow> Inr \<lparr>authMethod = auth\<rparr>)"

text \<open>
  \<^verbatim>\<open>validator.New().Struct(config)\<close>. The validation library reads the struct tags under
  the key \<^verbatim>\<open>validate\<close>, and on a field that is itself a struct it skips \<^verbatim>\<open>required\<close>
  and validates the fields inside. The tagged fields are \<open>Git\<close>, \<open>Auth\<close> (structs) and
  \<open>Remote\<close> (a string, required: non-empty). The tags on the fields of \<open>GitAuthConfig\<close>
  are under the key \<^verbatim>\<open>validation\<close>, which the library does not read.
\<close>

definition validator_Struct :: "PollConfig \<Rightarrow> error option" where
  "validator_Struct config =
     (if Remote (Git config) = [] then Some ValidationError else None)"

text \<open>A channel is its capacity. The fields of the struct \<open>poller\<close> carry its name as a
  prefix; \<open>repo\<close> is set later, when the poller starts.\<close>

datatype chan = make_chan nat

record poller =
  poller_c :: chan
  poller_config :: PollConfig
  poller_closer :: chan
  poller_git :: gitImpl

definition NewPoller :: "Os \<Rightarrow> PollConfig \<Rightarrow> error + poller" where
  "NewPoller os config0 =
     (let config1 = (if Interval config0 = 0
                     then config0\<lparr>Interval := 30 * 1000000000\<rparr> else config0)
      in case (if CloneDirectory (Git config1) = []
               then (case Getwd os of
                       Inl err \<Rightarrow> Inl err
                     | Inr wd \<Rightarrow> Inr (config1\<lparr>Git := (Git config1)\<lparr>CloneDirectory := wd\<rparr>\<rparr>))
               else Inr config1) of
           Inl err \<Rightarrow> Inl err
         | Inr config2 \<Rightarrow>
        (case validator_Struct config2 of
           Some err \<Rightarrow> Inl err
         | None \<Rightarrow>
        (case newGit os (Git config2) of
           Inl err \<Rightarrow> Inl err
         | Inr g \<Rightarrow>
             Inr \<lparr>poller_c = make_chan 1, poller_config = config2,
                  poller_closer = make_chan 1, poller_git = g\<rparr>)))"

section \<open>Polling (\<^verbatim>\<open>gpoll.go\<close>)\<close>

text \<open>A call either returns a value, returns an error, or panics.\<close>

datatype 'a outcome = Ok 'a | Err error | Panic

text \<open>
  The loops of \<open>Poll\<close>. The loop variable \<open>change\<close> is a copy of the element
  \<open>changes[k]\<close>: its field \<open>Changes\<close> is a slice header that at first shares the backing
  array of \<open>changes[k].Changes\<close>. The inner \<^verbatim>\<open>range\<close> evaluates its slice once, so it
  runs over the indices of that array and reads \<open>c\<close> from it. The state of the inner loop
  is the array (what the returned \<open>changes[k]\<close> shows) and what the copy's header refers
  to by now: still the array (\<open>Shared\<close>), or a slice of its own (\<open>Private\<close>) once
  \<open>filteredChanges\<close> has been assigned to it. A store through the header at an index not
  below its length panics; that is \<open>None\<close>. The arrays of different elements are taken
  to be distinct, as \<open>DiffRemote\<close> makes them.
\<close>

datatype slice = Shared | Private "FileChange list"

definition Poll_body ::
  "PollConfig \<Rightarrow> nat \<Rightarrow> FileChange list \<times> slice \<Rightarrow> (FileChange list \<times> slice) option" where
  "Poll_body p i st =
     (let arr = fst st;
          header = snd st;
          c = arr ! i;
          header' = (case FileChangeFilter p of
                       None \<Rightarrow> header
                     | Some accept \<Rightarrow> Private (if accept c then [] @ [c] else []));
          fp = Join [CloneDirectory (Git p), Filepath c]
      in (case header' of
            Shared \<Rightarrow>
              (if i < length arr
               then Some (list_update arr i ((arr ! i)\<lparr>Filepath := fp\<rparr>), Shared)
               else None)
          | Private xs \<Rightarrow>
              (if i < length xs
               then Some (arr, Private (list_update xs i ((xs ! i)\<lparr>Filepath := fp\<rparr>)))
               else None)))"

fun Poll_range ::
  "PollConfig \<Rightarrow> nat list \<Rightarrow> FileChange list \<times> slice \<Rightarrow> (FileChange list \<times> slice) option" where
  "Poll_range p [] st = Some st"
| "Poll_range p (i # is) st =
     (case Poll_body p i st of
        None \<Rightarrow> None
      | Some st' \<Rightarrow> Poll_range p is st')"

definition Poll_change :: "PollConfig \<Rightarrow> 'a ChangeBatch_scheme \<Rightarrow> 'a ChangeBatch_scheme option" where
  "Poll_change p change =
     (case Poll_range p [0..<length (Changes change)] (Changes change, Shared) of
        None \<Rightarrow> None
      | Some (arr, header) \<Rightarrow> Some (change\<lparr>Changes := arr\<rparr>))"

fun Poll_changes ::
  "PollConfig \<Rightarrow> 'a ChangeBatch_scheme list \<Rightarrow> 'a ChangeBatch_scheme list option" where
  "Poll_changes p [] = Some []"
| "Poll_changes p (change # changes) =
     (case Poll_change p change of
        None \<Rightarrow> None
      | Some change' \<Rightarrow>
     (case Poll_changes p changes of
        None \<Rightarrow> None
      | Some changes' \<Rightarrow> Some (change' # changes')))"

text \<open>\<open>Poll\<close>, given the answer of \<^verbatim>\<open>p.git.DiffRemote\<close> (a call through the
  \<open>GitService\<close> interface).\<close>

definition Poll ::
  "PollConfig \<Rightarrow> error + 'a ChangeBatch_scheme list \<Rightarrow> 'a ChangeBatch_scheme list outcome" where
  "Poll p diffRemote =
     (case diffRemote of
        Inl err \<Rightarrow> Err err
      | Inr changes \<Rightarrow>
          (if length changes > 0
           then (case Poll_changes p changes of
                   None \<Rightarrow> Panic
                 | Some changes' \<Rightarrow> Ok changes')
           else Ok changes))"

text \<open>
  What the poller does to its surroundings, in order: calls of the handler, sends on
  the delivery channel, stopping the ticker. The consumer is taken to receive, so a
  send does not block for ever.
\<close>

datatype 'c effect = HandleCommit_call 'c | c_send 'c | ticker_Stop

text \<open>What \<^verbatim>\<open>select\<close> receives: a fire of the ticker, with the answer \<open>DiffRemote\<close>
  gives at that moment, or the stop signal.\<close>

datatype 'c event = ticker_C "error + 'c list" | closer_recv

datatype loop_state = Waiting | Returned | Panicked

fun loop_deliver :: "PollConfig \<Rightarrow> 'c list \<Rightarrow> 'c effect list" where
  "loop_deliver p [] = []"
| "loop_deliver p (c # changes) =
     (if HandleCommit p \<noteq> None then [HandleCommit_call c] else []) @ [c_send c]
       @ loop_deliver p changes"

text \<open>\<open>loop\<close> over the events that arrive; \<open>Waiting\<close> is the \<^verbatim>\<open>select\<close> with no event
  left.\<close>

fun loop ::
  "PollConfig \<Rightarrow> 'a ChangeBatch_scheme event list
     \<Rightarrow> 'a ChangeBatch_scheme effect list \<times> loop_state" where
  "loop p [] = ([], Waiting)"
| "loop p (closer_recv # events) = ([ticker_Stop], Returned)"
| "loop p (ticker_C diffRemote # events) =
     (case Poll p diffRemote of
        Panic \<Rightarrow> ([], Panicked)
      | Err err \<Rightarrow> loop p events
      | Ok changes \<Rightarrow>
          (case loop p events of (effects, st) \<Rightarrow> (loop_deliver p changes @ effects, st)))"

section \<open>Setup (\<^verbatim>\<open>gpoll.go\<close>)\<close>

text \<open>The function handed to \<^verbatim>\<open>filepath.Walk\<close> by \<open>onStart\<close>; its state is the captured
  slice \<open>changes\<close>.\<close>

definition onStart_walkFn :: "FileChange list WalkFunc" where
  "onStart_walkFn fp err changes =
     (if err \<noteq> None then (Some SkipDir, changes)
      else let gitDir = Join [''*'', ''.git''];
               isInGitDir = Match (Join [gitDir, ''*'']) fp;
               isGitDir = Match gitDir fp
           in if isInGitDir \<or> isGitDir then (Some SkipDir, changes)
              else (None, changes @ [\<lparr>Filepath = fp, ChangeType = ChangeTypeInit\<rparr>]))"

text \<open>\<open>onStart\<close>, given the answer of \<^verbatim>\<open>p.git.HeadCommit\<close> and what is on disk at the
  clone directory. It returns its error and the calls of the handler it made.\<close>

definition onStart ::
  "PollConfig \<Rightarrow> error + object_Commit \<Rightarrow> FileInfo option
     \<Rightarrow> error option \<times> CommitBatch effect list" where
  "onStart p headCommit disk =
     (if HandleCommit p = None then (None, [])
      else case headCommit of
             Inl err \<Rightarrow> (Some err, [])
           | Inr commit \<Rightarrow>
               (case Walk (CloneDirectory (Git p)) disk onStart_walkFn [] of
                  (Some err, changes) \<Rightarrow> (Some err, [])
                | (None, changes) \<Rightarrow>
                    (None, [HandleCommit_call
                              \<lparr>Changes = changes, Sha = Hash commit, When = AuthorWhen commit\<rparr>])))"

text \<open>The method \<^verbatim>\<open>setup\<close> of the poller (named \<open>poller_setup\<close>, the bare name being a
  keyword), given the answer of \<^verbatim>\<open>p.git.Clone\<close>: the ticker (its interval) or the error,
  with the effects so far. \<^verbatim>\<open>time.NewTicker\<close> panics on an interval that is not
  positive, after the handler has been called.\<close>

definition poller_setup ::
  "PollConfig \<Rightarrow> error + 'r \<Rightarrow> error + object_Commit \<Rightarrow> FileInfo option
     \<Rightarrow> int outcome \<times> CommitBatch effect list" where
  "poller_setup p clone headCommit disk =
     (case clone of
        Inl err \<Rightarrow> (Err err, [])
      | Inr repo \<Rightarrow>
          (case onStart p headCommit disk of
             (Some err, effects) \<Rightarrow> (Err err, effects)
           | (None, effects) \<Rightarrow>
               (if Interval p \<le> 0 then (Panic, effects) else (Ok (Interval p), effects))))"

section \<open>Cloning (\<^verbatim>\<open>unnamed/part_001\<close>, \<^verbatim>\<open>git.go\<close>)\<close>

text \<open>
  Where a repository lives, and the world a clone acts on: the repositories on disk by
  directory, and what the remote gives for a URL and a branch. A repository is named by
  its content. The library's \<^verbatim>\<open>PlainClone\<close> refuses a directory that holds a repository
  and otherwise clones into it; \<^verbatim>\<open>PlainOpen\<close> opens what is on disk; \<^verbatim>\<open>git.Clone\<close>
  into a new \<^verbatim>\<open>memory.NewStorage()\<close> finds no repository there and leaves the disk alone.
\<close>

datatype storage = OnDisk string | InMemory

record git_Repository =
  Storer :: storage
  Content :: string

record World =
  Disk :: "string \<Rightarrow> string option"
  Origin :: "string \<Rightarrow> string \<Rightarrow> error + string"

definition PlainClone ::
  "World \<Rightarrow> string \<Rightarrow> string \<Rightarrow> string \<Rightarrow> (error + git_Repository) \<times> World" where
  "PlainClone w path url branch =
     (case Disk w path of
        Some existing \<Rightarrow> (Inl ErrRepositoryAlreadyExists, w)
      | None \<Rightarrow>
          (case Origin w url branch of
             Inl err \<Rightarrow> (Inl err, w)
           | Inr content \<Rightarrow>
               (Inr \<lparr>Storer = OnDisk path, Content = content\<rparr>,
                w\<lparr>Disk := (Disk w)(path \<mapsto> content)\<rparr>)))"

definition PlainOpen :: "World \<Rightarrow> string \<Rightarrow> error + git_Repository" where
  "PlainOpen w path =
     (case Disk w path of
        None \<Rightarrow> Inl ErrRepositoryNotExists
      | Some content \<Rightarrow> Inr \<lparr>Storer = OnDisk path, Content = content\<rparr>)"

definition git_Clone_memory ::
  "World \<Rightarrow> string \<Rightarrow> string \<Rightarrow> (error + git_Repository) \<times> World" where
  "git_Clone_memory w url branch =
     (case Origin w url branch of
        Inl err \<Rightarrow> (Inl err, w)
      | Inr content \<Rightarrow> (Inr \<lparr>Storer = InMemory, Content = content\<rparr>, w))"

text \<open>\<open>Clone\<close> of \<^verbatim>\<open>unnamed/part_001\<close>.\<close>

definition Clone ::
  "World \<Rightarrow> string \<Rightarrow> string \<Rightarrow> string \<Rightarrow> (error + git_Repository) \<times> World" where
  "Clone w remote branch directory =
     (case git_Clone_memory w remote branch of
        (Inl err, w') \<Rightarrow>
          (if err = ErrRepositoryAlreadyExists then (PlainOpen w' directory, w')
           else (Inl err, w'))
      | (Inr repo, w') \<Rightarrow> (Inr repo, w'))"

text \<open>\<open>Clone\<close> of \<^verbatim>\<open>git.go\<close>.\<close>

definition Clone_git_go ::
  "World \<Rightarrow> string \<Rightarrow> string \<Rightarrow> string \<Rightarrow> (error + git_Repository) \<times> World" where
  "Clone_git_go w remote branch directory =
     (case PlainClone w directory remote branch of
        (Inl err, w') \<Rightarrow>
          (if err = ErrRepositoryAlreadyExists then (PlainOpen w' directory, w')
           else (Inl err, w'))
      | (Inr repo, w') \<Rightarrow> (Inr repo, w'))"

section \<open>First-parent ancestry\<close>

text \<open>
  The notions the properties of the walk are stated with. \<open>first_parents c\<close> is the chain
  \<open>c\<close>, its first parent, the first parent of that, and so on, as far as parents exist
  and load. \<open>walked localHead remoteHead n\<close> is the list \<open>[localHead, c1, \<dots>, remoteHead]\<close>
  of a remote head that is \<open>n\<close> commits ahead: the local head, then the \<open>n\<close> newest
  commits of the chain of the remote head, oldest first.
\<close>

fun first_parents :: "object_Commit \<Rightarrow> object_Commit list" where
  "first_parents (object_Commit h an ae aw m t []) = [object_Commit h an ae aw m t []]"
| "first_parents (object_Commit h an ae aw m t (Inl err # ps)) =
     [object_Commit h an ae aw m t (Inl err # ps)]"
| "first_parents (object_Commit h an ae aw m t (Inr p # ps)) =
     object_Commit h an ae aw m t (Inr p # ps) # first_parents p"

definition walked :: "object_Commit \<Rightarrow> object_Commit \<Rightarrow> nat \<Rightarrow> object_Commit list" where
  "walked localHead remoteHead n = localHead # rev (take n (first_parents remoteHead))"

text \<open>\<open>accepted p c\<close>: the configured filter lets \<open>c\<close> through; with no filter every
  change is let through.\<close>

definition accepted :: "PollConfig \<Rightarrow> FileChange \<Rightarrow> bool" where
  "accepted p c = (case FileChangeFilter p of None \<Rightarrow> True | Some accept \<Rightarrow> accept c)"


section \<open>Example inputs\<close>

text \<open>A history \<open>A \<leftarrow> B \<leftarrow> C\<close>: \<open>B\<close> adds \<^verbatim>\<open>f1\<close>, \<open>C\<close> modifies \<^verbatim>\<open>f2\<close> and deletes
  \<^verbatim>\<open>f3\<close>. The local head is \<open>A\<close>, the remote branch \<^verbatim>\<open>master\<close> is at \<open>C\<close>.\<close>

definition tree_A :: object_Tree where
  "tree_A = [(''f2'', ''y0''), (''f3'', ''z'')]"

definition tree_B :: object_Tree where
  "tree_B = [(''f1'', ''x''), (''f2'', ''y0''), (''f3'', ''z'')]"

definition tree_C :: object_Tree where
  "tree_C = [(''f1'', ''x''), (''f2'', ''y1'')]"

definition entry :: "string \<Rightarrow> string \<Rightarrow> ChangeEntry" where
  "entry name hash =
     \<lparr>ChangeEntry.Name = name, TreePtr = Some ''tree'', EntryName = name, EntryMode = 33188,
      EntryHash = hash\<rparr>"

definition example_Tree_Diff :: "object_Tree \<Rightarrow> object_Tree \<Rightarrow> error + object_Change list" where
  "example_Tree_Diff a b =
     (if a = tree_A \<and> b = tree_B
      then Inr [\<lparr>object_Change.From = empty, object_Change.To = entry ''f1'' ''x''\<rparr>]
      else if a = tree_B \<and> b = tree_C
      then Inr [\<lparr>object_Change.From = entry ''f2'' ''y0'', object_Change.To = entry ''f2'' ''y1''\<rparr>,
                \<lparr>object_Change.From = entry ''f3'' ''z'', object_Change.To = empty\<rparr>]
      else Inr [])"

definition commit_A :: object_Commit where
  "commit_A = object_Commit ''A'' ''ann'' ''ann@example.org'' 100 ''first'' (Inr tree_A) []"

definition commit_B :: object_Commit where
  "commit_B =
     object_Commit ''B'' ''ann'' ''ann@example.org'' 200 ''second'' (Inr tree_B) [Inr commit_A]"

definition commit_C :: object_Commit where
  "commit_C =
     object_Commit ''C'' ''bob'' ''bob@example.org'' 300 ''third'' (Inr tree_C) [Inr commit_B]"

definition example_CommitObject :: "string \<Rightarrow> error + object_Commit" where
  "example_CommitObject h =
     (if h = ''A'' then Inr commit_A
      else if h = ''B'' then Inr commit_B
      else if h = ''C'' then Inr commit_C
      else Inl (OtherError ''object not found''))"

definition example_repo :: Repository where
  "example_repo =
     \<lparr>Fetch = None, Head = Inr ''A'', Repository.Remote = None,
      List = Inr [(''refs/heads/master'', ''C'')], CommitObject = example_CommitObject,
      Tree_Diff = example_Tree_Diff, Worktree = None, Pull = None\<rparr>"

text \<open>The two diffs of that history, a configuration, and four filters.\<close>

definition diff_A_B :: CommitDiff where
  "diff_A_B =
     \<lparr>Changes = [\<lparr>Filepath = ''f1'', ChangeType = ChangeTypeCreate\<rparr>],
      From = ToInternal commit_A, To = ToInternal commit_B\<rparr>"

definition diff_B_C :: CommitDiff where
  "diff_B_C =
     \<lparr>Changes = [\<lparr>Filepath = ''f2'', ChangeType = ChangeTypeUpdate\<rparr>,
                 \<lparr>Filepath = ''f3'', ChangeType = ChangeTypeDelete\<rparr>],
      From = ToInternal commit_B, To = ToInternal commit_C\<rparr>"

definition example_config :: PollConfig where
  "example_config =
     \<lparr>Git = \<lparr>Auth = \<lparr>SshKey = ''~/.ssh/id_rsa'', Username = [], Password = []\<rparr>,
             Remote = ''git@github.com:eddieowens/gpoll.git'', Branch = ''master'',
             CloneDirectory = ''/srv/repo''\<rparr>,
      FileChangeFilter = None, HandleCommit = None, Interval = 1\<rparr>"

definition only_creates :: "FileChange \<Rightarrow> bool" where
  "only_creates change = (ChangeType change = ChangeTypeCreate)"

definition only_updates :: "FileChange \<Rightarrow> bool" where
  "only_updates change = (ChangeType change = ChangeTypeUpdate)"

definition accept_all :: "FileChange \<Rightarrow> bool" where
  "accept_all change = True"

definition reject_all :: "FileChange \<Rightarrow> bool" where
  "reject_all change = False"

text \<open>The same repository with the local head at the remote branch head, the library
  answering both the fetch and the pull with "already up to date".\<close>

definition up_to_date_repo :: Repository where
  "up_to_date_repo =
     example_repo\<lparr>Fetch := Some NoErrAlreadyUpToDate, List := Inr [(''refs/heads/master'', ''A'')],
                  Pull := Some NoErrAlreadyUpToDate\<rparr>"

text \<open>A clone directory on disk, with its metadata directory and one file.\<close>

definition working_tree :: "FileInfo option" where
  "working_tree =
     Some (Dir [(''.git'', Some (Dir [(''HEAD'', Some File)])), (''a.txt'', Some File)])"

text \<open>Surroundings in which the key file exists and parses, and configurations with both
  forms of authentication, with a password only, and with none.\<close>

definition example_os :: Os where
  "example_os =
     \<lparr>Getwd = Inr ''/srv/repo'', UserHomeDir = ''/home/ann'',
      ReadFile = (\<lambda>fp. if fp = ''/home/ann/.ssh/id_rsa'' then Inr ''PRIVATE KEY''
                         else Inl (OtherError ''no such file'')),
      ParsePrivateKey = (\<lambda>key. if key = ''PRIVATE KEY'' then Inr ''signer''
                                else Inl (OtherError ''no key found''))\<rparr>"



definition no_auth_config :: PollConfig where
  "no_auth_config =
     example_config\<lparr>Git := (Git example_config)
       \<lparr>Auth := \<lparr>SshKey = [], Username = [], Password = []\<rparr>\<rparr>\<rparr>"

text \<open>A world with a repository already on disk at the clone directory.\<close>

definition example_World :: World where
  "example_World =
     \<lparr>Disk = (\<lambda>path. if path = ''/srv/repo'' then Some ''existing clone'' else None),
      Origin = (\<lambda>url branch. Inr ''fresh clone'')\<rparr>"

section \<open>Properties of the diff engine\<close>

lemma Diff_change_cases:
  "Diff_change d =
     (if object_Change.From d = empty \<and> object_Change.To d = empty then Inl MalformedChange
      else if object_Change.From d = empty
        then Inr \<lparr>Filepath = ChangeEntry.Name (object_Change.To d), ChangeType = ChangeTypeCreate\<rparr>
      else if object_Change.To d = empty
        then Inr \<lparr>Filepath = ChangeEntry.Name (object_Change.From d), ChangeType = ChangeTypeDelete\<rparr>
      else Inr \<lparr>Filepath = ChangeEntry.Name (object_Change.To d), ChangeType = ChangeTypeUpdate\<rparr>)"
  by (simp add: Diff_change_def Action_def)

lemma Diff_change_Inr:
  "Diff_change d = Inr fc \<Longrightarrow>
     (object_Change.From d \<noteq> empty \<and> object_Change.To d \<noteq> empty \<longrightarrow>
        ChangeType fc = ChangeTypeUpdate) \<and>
     (object_Change.From d = empty \<longrightarrow> ChangeType fc = ChangeTypeCreate) \<and>
     (object_Change.To d = empty \<longrightarrow> ChangeType fc = ChangeTypeDelete) \<and>
     (ChangeType fc = ChangeTypeDelete \<longrightarrow>
        Filepath fc = ChangeEntry.Name (object_Change.From d)) \<and>
     (ChangeType fc \<noteq> ChangeTypeDelete \<longrightarrow>
        Filepath fc = ChangeEntry.Name (object_Change.To d))"
  by (auto simp: Diff_change_cases split: if_splits)

lemma Diff_loop_total:
  "\<forall>d\<in>set diffs. object_Change.From d \<noteq> empty \<or> object_Change.To d \<noteq> empty \<Longrightarrow>
   \<exists>changes. Diff_loop diffs acc = Inr (acc @ changes) \<and> length changes = length diffs \<and>
     (\<forall>i<length diffs. Diff_change (diffs ! i) = Inr (changes ! i))"
proof (induction diffs arbitrary: acc)
  case Nil
  then show ?case by simp
next
  case (Cons d diffs)
  from Cons.prems have "\<exists>fc. Diff_change d = Inr fc"
    by (simp add: Diff_change_cases)
  then obtain fc where fc: "Diff_change d = Inr fc" ..
  from Cons.prems
  have "\<forall>d\<in>set diffs. object_Change.From d \<noteq> empty \<or> object_Change.To d \<noteq> empty"
    by simp
  from Cons.IH [OF this, of "acc @ [fc]"] obtain changes where
    ch: "Diff_loop diffs (acc @ [fc]) = Inr ((acc @ [fc]) @ changes)"
      "length changes = length diffs"
      "\<forall>i<length diffs. Diff_change (diffs ! i) = Inr (changes ! i)"
    by blast
  have "\<forall>i<length (d # diffs). Diff_change ((d # diffs) ! i) = Inr ((fc # changes) ! i)"
    using fc ch(3) by (auto simp: nth_Cons split: nat.splits)
  with fc ch(1,2) show ?case
    by (intro exI [of _ "fc # changes"]) simp
qed

text \<open>
  Claim C3. Whenever the trees of the two commits load and the library's tree diff
  answers with changes none of which is empty on both sides, \<open>Diff\<close> returns one
  \<open>FileChange\<close> per change, in the library's order: a change present on both sides (a
  modification) is an \<open>Update\<close>, one present only on the to side a \<open>Create\<close>, one present
  only on the from side a \<open>Delete\<close>; a \<open>Delete\<close> carries the path of the from side and
  every other change the path of the to side.
\<close>

theorem Diff_classifies:
  assumes "Tree from = Inr fromTree" and "Tree to = Inr toTree"
    and "Tree_Diff g fromTree toTree = Inr diffs"
    and "\<forall>d\<in>set diffs. object_Change.From d \<noteq> empty \<or> object_Change.To d \<noteq> empty"
  shows "\<exists>changes.
           Diff g from to = Inr \<lparr>Changes = changes, From = ToInternal from, To = ToInternal to\<rparr> \<and>
           length changes = length diffs \<and>
           (\<forall>i<length diffs.
              (object_Change.From (diffs ! i) \<noteq> empty \<and> object_Change.To (diffs ! i) \<noteq> empty \<longrightarrow>
                 ChangeType (changes ! i) = ChangeTypeUpdate) \<and>
              (object_Change.From (diffs ! i) = empty \<longrightarrow>
                 ChangeType (changes ! i) = ChangeTypeCreate) \<and>
              (object_Change.To (diffs ! i) = empty \<longrightarrow>
                 ChangeType (changes ! i) = ChangeTypeDelete) \<and>
              (ChangeType (changes ! i) = ChangeTypeDelete \<longrightarrow>
                 Filepath (changes ! i) = ChangeEntry.Name (object_Change.From (diffs ! i))) \<and>
              (ChangeType (changes ! i) \<noteq> ChangeTypeDelete \<longrightarrow>
                 Filepath (changes ! i) = ChangeEntry.Name (object_Change.To (diffs ! i))))"
proof -
  from Diff_loop_total [OF assms(4), of "[]"] obtain changes where
    ch: "Diff_loop diffs [] = Inr changes" "length changes = length diffs"
      "\<forall>i<length diffs. Diff_change (diffs ! i) = Inr (changes ! i)"
    by auto
  have "Diff g from to = Inr \<lparr>Changes = changes, From = ToInternal from, To = ToInternal to\<rparr>"
    using assms(1-3) ch(1) by (simp add: Diff_def)
  moreover have "\<forall>i<length diffs.
              (object_Change.From (diffs ! i) \<noteq> empty \<and> object_Change.To (diffs ! i) \<noteq> empty \<longrightarrow>
                 ChangeType (changes ! i) = ChangeTypeUpdate) \<and>
              (object_Change.From (diffs ! i) = empty \<longrightarrow>
                 ChangeType (changes ! i) = ChangeTypeCreate) \<and>
              (object_Change.To (diffs ! i) = empty \<longrightarrow>
                 ChangeType (changes ! i) = ChangeTypeDelete) \<and>
              (ChangeType (changes ! i) = ChangeTypeDelete \<longrightarrow>
                 Filepath (changes ! i) = ChangeEntry.Name (object_Change.From (diffs ! i))) \<and>
              (ChangeType (changes ! i) \<noteq> ChangeTypeDelete \<longrightarrow>
                 Filepath (changes ! i) = ChangeEntry.Name (object_Change.To (diffs ! i)))"
  proof (intro allI impI)
    fix i assume i: "i < length diffs"
    with ch(3) have "Diff_change (diffs ! i) = Inr (changes ! i)" by blast
    from Diff_change_Inr [OF this]
    show "(object_Change.From (diffs ! i) \<noteq> empty \<and> object_Change.To (diffs ! i) \<noteq> empty \<longrightarrow>
                 ChangeType (changes ! i) = ChangeTypeUpdate) \<and>
              (object_Change.From (diffs ! i) = empty \<longrightarrow>
                 ChangeType (changes ! i) = ChangeTypeCreate) \<and>
              (object_Change.To (diffs ! i) = empty \<longrightarrow>
                 ChangeType (changes ! i) = ChangeTypeDelete) \<and>
              (ChangeType (changes ! i) = ChangeTypeDelete \<longrightarrow>
                 Filepath (changes ! i) = ChangeEntry.Name (object_Change.From (diffs ! i))) \<and>
              (ChangeType (changes ! i) \<noteq> ChangeTypeDelete \<longrightarrow>
                 Filepath (changes ! i) = ChangeEntry.Name (object_Change.To (diffs ! i)))" .
  qed
  ultimately show ?thesis using ch(2) by blast
qed

theorem Diff_classifies_witness:
  "\<exists>changes.
     Diff example_repo commit_B commit_C =
       Inr \<lparr>Changes = changes, From = ToInternal commit_B, To = ToInternal commit_C\<rparr> \<and>
     length changes = 2 \<and>
     ChangeType (changes ! 0) = ChangeTypeUpdate \<and> Filepath (changes ! 0) = ''f2'' \<and>
     ChangeType (changes ! 1) = ChangeTypeDelete \<and> Filepath (changes ! 1) = ''f3''"
proof -
  let ?diffs = "[\<lparr>object_Change.From = entry ''f2'' ''y0'', object_Change.To = entry ''f2'' ''y1''\<rparr>,
                 \<lparr>object_Change.From = entry ''f3'' ''z'', object_Change.To = empty\<rparr>]"
  have t: "Tree commit_B = Inr tree_B" "Tree commit_C = Inr tree_C"
    by (simp_all add: commit_B_def commit_C_def)
  have d: "Tree_Diff example_repo tree_B tree_C = Inr ?diffs"
    by (simp add: example_repo_def example_Tree_Diff_def tree_A_def tree_B_def tree_C_def)
  have ne: "\<forall>d\<in>set ?diffs. object_Change.From d \<noteq> empty \<or> object_Change.To d \<noteq> empty"
    by (simp add: entry_def empty_def)
  from Diff_classifies [OF t d ne] obtain changes where
    r: "Diff example_repo commit_B commit_C =
          Inr \<lparr>Changes = changes, From = ToInternal commit_B, To = ToInternal commit_C\<rparr>"
      "length changes = length ?diffs"
    and cl: "\<And>i. i < length ?diffs \<Longrightarrow>
        (object_Change.From (?diffs ! i) \<noteq> empty \<and> object_Change.To (?diffs ! i) \<noteq> empty \<longrightarrow>
                 ChangeType (changes ! i) = ChangeTypeUpdate) \<and>
              (object_Change.From (?diffs ! i) = empty \<longrightarrow>
                 ChangeType (changes ! i) = ChangeTypeCreate) \<and>
              (object_Change.To (?diffs ! i) = empty \<longrightarrow>
                 ChangeType (changes ! i) = ChangeTypeDelete) \<and>
              (ChangeType (changes ! i) = ChangeTypeDelete \<longrightarrow>
                 Filepath (changes ! i) = ChangeEntry.Name (object_Change.From (?diffs ! i))) \<and>
              (ChangeType (changes ! i) \<noteq> ChangeTypeDelete \<longrightarrow>
                 Filepath (changes ! i) = ChangeEntry.Name (object_Change.To (?diffs ! i)))"
    by blast
  from cl [of 0] have c0: "ChangeType (changes ! 0) = ChangeTypeUpdate \<and> Filepath (changes ! 0) = ''f2''"
    by (simp add: entry_def empty_def)
  from cl [of 1] have c1: "ChangeType (changes ! 1) = ChangeTypeDelete \<and> Filepath (changes ! 1) = ''f3''"
    by (simp add: entry_def empty_def)
  from r c0 c1 show ?thesis by auto
qed

section \<open>Properties of the ancestry walk and of \<open>DiffRemote\<close>\<close>

lemma first_parents_unfold:
  "first_parents c = c # (case Parents_Next c of Inl err \<Rightarrow> [] | Inr p \<Rightarrow> first_parents p)"
  by (cases c rule: first_parents.cases) simp_all

lemma first_parents_0: "first_parents c ! 0 = c"
  by (subst first_parents_unfold) simp

lemma first_parents_Suc:
  "Suc k < length (first_parents c) \<Longrightarrow>
     \<exists>p. Parents_Next c = Inr p \<and> first_parents c = c # first_parents p"
  by (subst (asm) first_parents_unfold, subst first_parents_unfold) (auto split: sum.splits)

lemma first_parents_step:
  "Suc k < length (first_parents c) \<Longrightarrow>
     Parents_Next (first_parents c ! k) = Inr (first_parents c ! Suc k)"
proof (induction k arbitrary: c)
  case 0
  from first_parents_Suc [OF 0] obtain p where
    p: "Parents_Next c = Inr p" "first_parents c = c # first_parents p" by blast
  then show ?case by (simp add: first_parents_0)
next
  case (Suc k)
  from first_parents_Suc [OF Suc.prems] obtain p where
    p: "Parents_Next c = Inr p" "first_parents c = c # first_parents p" by blast
  with Suc.prems have "Suc k < length (first_parents p)" by simp
  from Suc.IH [OF this] p(2) show ?case by simp
qed

lemma listCommits_walk_reaches:
  "n < length (first_parents c) \<Longrightarrow> Hash (first_parents c ! n) = Hash from \<Longrightarrow>
   \<forall>k<n. Hash (first_parents c ! k) \<noteq> Hash from \<Longrightarrow>
   listCommits_walk from c cs = Inr (cs @ take n (first_parents c))"
proof (induction n arbitrary: c cs)
  case 0
  then show ?case
    by (subst listCommits_walk.simps) (simp add: first_parents_0)
next
  case (Suc n)
  from first_parents_Suc [OF Suc.prems(1)] obtain p where
    p: "Parents_Next c = Inr p" "first_parents c = c # first_parents p" by blast
  from Suc.prems(3) have ne: "Hash c \<noteq> Hash from"
    using first_parents_0 [of c] by (metis zero_less_Suc)
  have 1: "n < length (first_parents p)" using Suc.prems(1) p(2) by simp
  have 2: "Hash (first_parents p ! n) = Hash from" using Suc.prems(2) p(2) by simp
  have 3: "\<forall>k<n. Hash (first_parents p ! k) \<noteq> Hash from"
  proof (intro allI impI)
    fix k assume "k < n"
    then have "Suc k < Suc n" by simp
    with Suc.prems(3) have "Hash (first_parents c ! Suc k) \<noteq> Hash from" by blast
    with p(2) show "Hash (first_parents p ! k) \<noteq> Hash from" by simp
  qed
  from Suc.IH [OF 1 2 3, of "cs @ [c]"] ne p show ?case
    by (subst listCommits_walk.simps) simp
qed

lemma reverse_loop: "map (\<lambda>i. cs ! (length cs - (i + 1))) [0..<length cs] = rev cs"
  by (rule nth_equalityI) (simp_all add: rev_nth)

lemma listCommits_reaches:
  assumes "n < length (first_parents to)" and "Hash (first_parents to ! n) = Hash from"
    and "\<forall>k<n. Hash (first_parents to ! k) \<noteq> Hash from"
  shows "listCommits from to = Inr (from # rev (take n (first_parents to)))"
proof -
  let ?cs = "take n (first_parents to) @ [from]"
  have "listCommits_walk from to [] = Inr (take n (first_parents to))"
    using listCommits_walk_reaches [OF assms, of "[]"] by simp
  then have "listCommits from to =
      Inr (map (\<lambda>i. ?cs ! (length ?cs - (i + 1))) [0..<length ?cs])"
    unfolding listCommits_def Let_def by simp
  also have "\<dots> = Inr (rev ?cs)"
    by (simp only: reverse_loop)
  finally show ?thesis by simp
qed

lemma Diff_From_To:
  "Diff g a b = Inr d \<Longrightarrow> From d = ToInternal a \<and> To d = ToInternal b"
  by (auto simp: Diff_def split: sum.splits)

lemma DiffRemote_loop_total:
  "\<forall>i<length cs. \<exists>d. Diff g ((f # cs) ! i) ((f # cs) ! Suc i) = Inr d \<Longrightarrow>
   \<exists>ds. DiffRemote_loop g f cs = Inr ds \<and> length ds = length cs \<and>
     (\<forall>i<length cs. Diff g ((f # cs) ! i) ((f # cs) ! Suc i) = Inr (ds ! i))"
proof (induction cs arbitrary: f)
  case Nil
  then show ?case by simp
next
  case (Cons c cs)
  from Cons.prems have "\<exists>d. Diff g f c = Inr d" by fastforce
  then obtain d where d: "Diff g f c = Inr d" ..
  have "\<forall>i<length cs. \<exists>d. Diff g ((c # cs) ! i) ((c # cs) ! Suc i) = Inr d"
  proof (intro allI impI)
    fix i assume "i < length cs"
    then have "Suc i < length (c # cs)" by simp
    with Cons.prems have "\<exists>d. Diff g ((f # c # cs) ! Suc i) ((f # c # cs) ! Suc (Suc i)) = Inr d"
      by blast
    then show "\<exists>d. Diff g ((c # cs) ! i) ((c # cs) ! Suc i) = Inr d" by simp
  qed
  from Cons.IH [OF this] obtain ds where
    ds: "DiffRemote_loop g c cs = Inr ds" "length ds = length cs"
      "\<forall>i<length cs. Diff g ((c # cs) ! i) ((c # cs) ! Suc i) = Inr (ds ! i)"
    by blast
  have "\<forall>i<length (c # cs). Diff g ((f # c # cs) ! i) ((f # c # cs) ! Suc i) = Inr ((d # ds) ! i)"
    using d ds(3) by (auto simp: nth_Cons split: nat.splits)
  with d ds(1,2) show ?case
    by (intro exI [of _ "d # ds"]) simp
qed


lemma walked_Suc:
  "i < n \<Longrightarrow> n < length (first_parents r) \<Longrightarrow>
     walked l r n ! Suc i = first_parents r ! (n - Suc i)"
  by (simp add: walked_def rev_nth)

lemma walked_parent:
  assumes "i < n" and "n < length (first_parents r)"
    and "Hash (first_parents r ! n) = Hash l"
  shows "\<exists>p. Parents_Next (walked l r n ! Suc i) = Inr p \<and> Hash p = Hash (walked l r n ! i)"
proof -
  have "Suc (n - Suc i) < length (first_parents r)" using assms(1,2) by simp
  from first_parents_step [OF this]
  have step: "Parents_Next (walked l r n ! Suc i) = Inr (first_parents r ! (n - i))"
    using assms(1,2) by (simp add: walked_Suc Suc_diff_Suc)
  have "Hash (first_parents r ! (n - i)) = Hash (walked l r n ! i)"
  proof (cases i)
    case 0
    with assms(3) show ?thesis by (simp add: walked_def)
  next
    case (Suc j)
    with assms(1) have "j < n" by simp
    from walked_Suc [OF this assms(2), of l] Suc show ?thesis by simp
  qed
  with step show ?thesis by blast
qed

text \<open>
  What \<open>DiffRemote\<close> itself returns. When the fetch succeeds or finds nothing new, the
  local head and the remote branch head resolve, the remote head is \<open>n\<close> commits ahead of
  the local head along first parents (the \<open>n\<close>-th first-parent ancestor of the remote head
  is the first one with the hash of the local head), every adjacent pair of the walked
  list diffs, and the pull succeeds, then \<open>DiffRemote\<close> returns exactly \<open>n\<close> diffs. The
  \<open>i\<close>-th is the diff from commit \<open>i\<close> to commit \<open>i + 1\<close> of the walked list
  \<open>[localHead, c1, \<dots>, remoteHead]\<close>, with those two commits as its \<open>From\<close> and \<open>To\<close>; each
  step goes from a commit to its child, so the diffs are ordered oldest first; each diff
  starts where the one before ended; the first starts at the local head and the last
  ends at the remote head.
\<close>

lemma DiffRemote_one_diff_per_commit:
  assumes fetch: "Fetch repo = None \<or> Fetch repo = Some NoErrAlreadyUpToDate"
    and head: "Head repo = Inr h" "CommitObject repo h = Inr localHead"
    and remote: "FetchLatestRemoteCommit repo branch = Inr remoteHead"
    and ahead: "n < length (first_parents remoteHead)"
      "Hash (first_parents remoteHead ! n) = Hash localHead"
      "\<forall>k<n. Hash (first_parents remoteHead ! k) \<noteq> Hash localHead"
    and diff_ok: "\<forall>i<n. \<exists>d. Diff repo (walked localHead remoteHead n ! i)
                                  (walked localHead remoteHead n ! Suc i) = Inr d"
    and pull: "Worktree repo = None" "Pull repo = None"
  shows "\<exists>diffs.
           DiffRemote repo branch = Inr diffs \<and> length diffs = n \<and>
           (\<forall>i<n. Diff repo (walked localHead remoteHead n ! i)
                             (walked localHead remoteHead n ! Suc i) = Inr (diffs ! i) \<and>
                   From (diffs ! i) = ToInternal (walked localHead remoteHead n ! i) \<and>
                   To (diffs ! i) = ToInternal (walked localHead remoteHead n ! Suc i) \<and>
                   (\<exists>p. Parents_Next (walked localHead remoteHead n ! Suc i) = Inr p \<and>
                        Hash p = Hash (walked localHead remoteHead n ! i))) \<and>
           (\<forall>i. Suc i < n \<longrightarrow> To (diffs ! i) = From (diffs ! Suc i)) \<and>
           (0 < n \<longrightarrow> From (diffs ! 0) = ToInternal localHead \<and>
                      To (diffs ! (n - 1)) = ToInternal remoteHead)"
proof -
  let ?w = "walked localHead remoteHead n"
  let ?cs = "rev (take n (first_parents remoteHead))"
  have w: "?w = localHead # ?cs" by (simp add: walked_def)
  have len: "length ?cs = n" using ahead(1) by simp
  have lc: "listCommits localHead remoteHead = Inr (localHead # ?cs)"
    by (rule listCommits_reaches [OF ahead])
  have "\<forall>i<length ?cs. \<exists>d. Diff repo ((localHead # ?cs) ! i) ((localHead # ?cs) ! Suc i) = Inr d"
    using diff_ok unfolding w len .
  from DiffRemote_loop_total [OF this] obtain diffs where
    ds: "DiffRemote_loop repo localHead ?cs = Inr diffs" "length diffs = n"
    and di: "\<And>i. i < n \<Longrightarrow> Diff repo (?w ! i) (?w ! Suc i) = Inr (diffs ! i)"
    unfolding w len by blast
  have fetch': "(case Fetch repo of
              Some err \<Rightarrow> (if err \<noteq> NoErrAlreadyUpToDate then Some err else None)
            | None \<Rightarrow> None) = None"
    using fetch by auto
  have res: "DiffRemote repo branch = Inr diffs"
    unfolding DiffRemote_def fetch' using head remote lc ds(1) pull by simp
  have ft: "\<And>i. i < n \<Longrightarrow> From (diffs ! i) = ToInternal (?w ! i) \<and> To (diffs ! i) = ToInternal (?w ! Suc i)"
    using di Diff_From_To by blast
  have adj: "\<forall>i. Suc i < n \<longrightarrow> To (diffs ! i) = From (diffs ! Suc i)"
  proof (intro allI impI)
    fix i assume "Suc i < n"
    then have "i < n" by simp
    from ft [OF this] ft [OF \<open>Suc i < n\<close>] show "To (diffs ! i) = From (diffs ! Suc i)" by simp
  qed
  have ends: "0 < n \<longrightarrow> From (diffs ! 0) = ToInternal localHead \<and>
                      To (diffs ! (n - 1)) = ToInternal remoteHead"
  proof
    assume pos: "0 < n"
    then have "n - 1 < n" by simp
    from ft [OF this] pos have "To (diffs ! (n - 1)) = ToInternal (?w ! n)" by simp
    moreover have "?w ! n = first_parents remoteHead ! 0"
      using walked_Suc [OF \<open>n - 1 < n\<close> ahead(1), of localHead] pos by simp
    moreover from ft [OF pos] have "From (diffs ! 0) = ToInternal localHead" by (simp add: w)
    ultimately show "From (diffs ! 0) = ToInternal localHead \<and>
                      To (diffs ! (n - 1)) = ToInternal remoteHead"
      by (simp add: first_parents_0)
  qed
  have main: "\<forall>i<n. Diff repo (?w ! i) (?w ! Suc i) = Inr (diffs ! i) \<and>
                   From (diffs ! i) = ToInternal (?w ! i) \<and>
                   To (diffs ! i) = ToInternal (?w ! Suc i) \<and>
                   (\<exists>p. Parents_Next (?w ! Suc i) = Inr p \<and> Hash p = Hash (?w ! i))"
    using di ft walked_parent [OF _ ahead(1,2)] by blast
  from res ds(2) main adj ends show ?thesis by blast
qed


lemma example_first_parents: "first_parents commit_C = [commit_C, commit_B, commit_A]"
  by (simp add: commit_A_def commit_B_def commit_C_def)

lemma example_walked: "walked commit_A commit_C 2 = [commit_A, commit_B, commit_C]"
  by (simp add: walked_def example_first_parents)

lemma example_Diff_A_B:
  "Diff example_repo commit_A commit_B =
     Inr \<lparr>Changes = [\<lparr>Filepath = ''f1'', ChangeType = ChangeTypeCreate\<rparr>],
          From = ToInternal commit_A, To = ToInternal commit_B\<rparr>"
  by (simp add: Diff_def commit_A_def commit_B_def example_repo_def example_Tree_Diff_def
      tree_A_def tree_B_def tree_C_def Diff_change_cases entry_def empty_def)

lemma example_Diff_B_C:
  "Diff example_repo commit_B commit_C =
     Inr \<lparr>Changes = [\<lparr>Filepath = ''f2'', ChangeType = ChangeTypeUpdate\<rparr>,
                     \<lparr>Filepath = ''f3'', ChangeType = ChangeTypeDelete\<rparr>],
          From = ToInternal commit_B, To = ToInternal commit_C\<rparr>"
  by (simp add: Diff_def commit_B_def commit_C_def example_repo_def example_Tree_Diff_def
      tree_A_def tree_B_def tree_C_def Diff_change_cases entry_def empty_def)

lemma example_remote: "FetchLatestRemoteCommit example_repo ''master'' = Inr commit_C"
  by (simp add: FetchLatestRemoteCommit_def example_repo_def example_CommitObject_def)

text \<open>On the example history \<open>DiffRemote\<close> returns the two diffs, oldest first.\<close>

lemma DiffRemote_example:
  "DiffRemote example_repo ''master'' =
     Inr [\<lparr>Changes = [\<lparr>Filepath = ''f1'', ChangeType = ChangeTypeCreate\<rparr>],
           From = ToInternal commit_A, To = ToInternal commit_B\<rparr>,
          \<lparr>Changes = [\<lparr>Filepath = ''f2'', ChangeType = ChangeTypeUpdate\<rparr>,
                      \<lparr>Filepath = ''f3'', ChangeType = ChangeTypeDelete\<rparr>],
           From = ToInternal commit_B, To = ToInternal commit_C\<rparr>]"
proof -
  have fetch: "Fetch example_repo = None \<or> Fetch example_repo = Some NoErrAlreadyUpToDate"
    by (simp add: example_repo_def)
  have head: "Head example_repo = Inr ''A''" "CommitObject example_repo ''A'' = Inr commit_A"
    by (simp_all add: example_repo_def example_CommitObject_def)
  have ahead: "2 < length (first_parents commit_C)"
    "Hash (first_parents commit_C ! 2) = Hash commit_A"
    "\<forall>k<2. Hash (first_parents commit_C ! k) \<noteq> Hash commit_A"
    by (auto simp: example_first_parents commit_A_def commit_B_def commit_C_def
        less_Suc_eq numeral_2_eq_2)
  have diff_ok: "\<forall>i<2. \<exists>d. Diff example_repo (walked commit_A commit_C 2 ! i)
                                  (walked commit_A commit_C 2 ! Suc i) = Inr d"
  proof (intro allI impI)
    fix i :: nat
    assume "i < 2"
    then have "i = 0 \<or> i = 1" by auto
    then show "\<exists>d. Diff example_repo (walked commit_A commit_C 2 ! i)
                                  (walked commit_A commit_C 2 ! Suc i) = Inr d"
      by (auto simp: example_walked example_Diff_A_B example_Diff_B_C)
  qed
  have pull: "Worktree example_repo = None" "Pull example_repo = None"
    by (simp_all add: example_repo_def)
  from DiffRemote_one_diff_per_commit [OF fetch head example_remote ahead diff_ok pull]
  obtain diffs where
    r: "DiffRemote example_repo ''master'' = Inr diffs" "length diffs = 2"
    and d: "\<And>i. i < 2 \<Longrightarrow> Diff example_repo (walked commit_A commit_C 2 ! i)
                             (walked commit_A commit_C 2 ! Suc i) = Inr (diffs ! i)"
    by blast
  from d [of 0] have d0: "diffs ! 0 = \<lparr>Changes = [\<lparr>Filepath = ''f1'', ChangeType = ChangeTypeCreate\<rparr>],
           From = ToInternal commit_A, To = ToInternal commit_B\<rparr>"
    by (simp add: example_walked example_Diff_A_B)
  from d [of 1] have d1: "diffs ! 1 = \<lparr>Changes = [\<lparr>Filepath = ''f2'', ChangeType = ChangeTypeUpdate\<rparr>,
                      \<lparr>Filepath = ''f3'', ChangeType = ChangeTypeDelete\<rparr>],
           From = ToInternal commit_B, To = ToInternal commit_C\<rparr>"
    by (simp add: example_walked example_Diff_B_C)
  from r(2) have "diffs = [diffs ! 0, diffs ! 1]"
    by (cases diffs; cases "tl diffs"; cases "tl (tl diffs)") auto
  with r(1) d0 d1 show ?thesis by simp
qed

lemma DiffRemote_no_new_commits:
  assumes "Fetch repo = None \<or> Fetch repo = Some NoErrAlreadyUpToDate"
    and "Head repo = Inr h" and "CommitObject repo h = Inr localHead"
    and "FetchLatestRemoteCommit repo branch = Inr remoteHead"
    and "Hash remoteHead = Hash localHead" and "Worktree repo = None"
  shows "DiffRemote repo branch = (case Pull repo of Some err \<Rightarrow> Inl err | None \<Rightarrow> Inr [])"
proof -
  have fetch': "(case Fetch repo of
              Some err \<Rightarrow> (if err \<noteq> NoErrAlreadyUpToDate then Some err else None)
            | None \<Rightarrow> None) = None"
    using assms(1) by auto
  have "listCommits_walk localHead remoteHead [] = Inr []"
    using assms(5) by (subst listCommits_walk.simps) simp
  then have "listCommits localHead remoteHead = Inr [localHead]"
    by (simp add: listCommits_def)
  then show ?thesis
    unfolding DiffRemote_def fetch' using assms(2,3,4,6) by (simp split: option.splits)
qed

text \<open>
  Claim C2, at an input where the code departs from it. The local head is the remote
  branch head, and the library answers the fetch and the pull with
  \<^verbatim>\<open>NoErrAlreadyUpToDate\<close>, as it does when there is nothing new. The claim has the poll
  return an empty sequence and no error. \<open>DiffRemote\<close> lets the answer of the fetch pass
  but returns the answer of the pull as its error, and \<open>Poll\<close> returns that error.
\<close>

theorem DiffRemote_surfaces_up_to_date_pull:
  "DiffRemote up_to_date_repo ''master'' = Inl NoErrAlreadyUpToDate"
  by (simp add: DiffRemote_def up_to_date_repo_def example_repo_def FetchLatestRemoteCommit_def
      example_CommitObject_def listCommits_def listCommits_walk.simps commit_A_def)

section \<open>Properties of \<open>Poll\<close>\<close>

lemma Poll_range_append:
  "Poll_range p (xs @ ys) st =
     (case Poll_range p xs st of None \<Rightarrow> None | Some st' \<Rightarrow> Poll_range p ys st')"
  by (induction xs arbitrary: st) (auto split: option.splits)

lemma Poll_range_no_filter:
  assumes "FileChangeFilter p = None"
  shows "n \<le> length arr \<Longrightarrow>
     Poll_range p [0..<n] (arr, Shared) =
       Some (map (\<lambda>c. c\<lparr>Filepath := Join [CloneDirectory (Git p), Filepath c]\<rparr>) (take n arr)
               @ drop n arr, Shared)"
proof (induction n)
  case 0
  then show ?case by simp
next
  case (Suc n)
  let ?rw = "\<lambda>c. c\<lparr>Filepath := Join [CloneDirectory (Git p), Filepath c]\<rparr>"
  let ?mid = "map ?rw (take n arr) @ drop n arr"
  from Suc.prems have n: "n < length arr" by simp
  then have IH: "Poll_range p [0..<n] (arr, Shared) = Some (?mid, Shared)"
    using Suc.IH by simp
  have at: "?mid ! n = arr ! n" using n by (simp add: nth_append)
  have len: "length ?mid = length arr" using n by simp
  have upd: "list_update ?mid n (?rw (arr ! n)) = map ?rw (take (Suc n) arr) @ drop (Suc n) arr"
    using n by (simp add: list_update_append take_Suc_conv_app_nth upd_conv_take_nth_drop
        Cons_nth_drop_Suc [symmetric])
  have "Poll_body p n (?mid, Shared) =
      Some (map ?rw (take (Suc n) arr) @ drop (Suc n) arr, Shared)"
    unfolding Poll_body_def Let_def using assms n by (simp only: fst_conv snd_conv at len upd option.case slice.case if_True)
  with IH show ?case
    by (simp add: Poll_range_append del: upt_Suc add: upt_Suc_append)
qed


lemma Poll_body_filter_later:
  assumes "FileChangeFilter p = Some accept" and "0 < i"
  shows "Poll_body p i st = None"
  using assms by (simp add: Poll_body_def Let_def)

lemma Poll_body_filter_first:
  assumes "FileChangeFilter p = Some accept"
  shows "Poll_body p 0 (arr, h) =
     (if accept (arr ! 0)
      then Some (arr, Private [(arr ! 0)\<lparr>Filepath := Join [CloneDirectory (Git p), Filepath (arr ! 0)]\<rparr>])
      else None)"
  using assms by (simp add: Poll_body_def Let_def)

lemma Poll_range_filter:
  assumes "FileChangeFilter p = Some accept"
  shows "Poll_range p [0..<length arr] (arr, Shared) \<noteq> None \<longleftrightarrow>
           arr = [] \<or> (length arr = 1 \<and> accept (arr ! 0))"
    and "Poll_range p [0..<length arr] (arr, Shared) = Some (arr', h) \<Longrightarrow> arr' = arr"
proof -
  consider "arr = []" | a where "arr = [a]" | a b rest where "arr = a # b # rest"
    by (cases arr; cases "tl arr") auto
  then have "(Poll_range p [0..<length arr] (arr, Shared) \<noteq> None \<longleftrightarrow>
           arr = [] \<or> (length arr = 1 \<and> accept (arr ! 0))) \<and>
      (\<forall>arr' h. Poll_range p [0..<length arr] (arr, Shared) = Some (arr', h) \<longrightarrow> arr' = arr)"
  proof cases
    case 1
    then show ?thesis by simp
  next
    case 2
    then show ?thesis
      by (simp add: Poll_body_filter_first [OF assms])
  next
    case 3
    have l: "0 < length arr" "Suc 0 < length arr" using 3 by simp_all
    have "[0..<length arr] = 0 # [Suc 0..<length arr]"
      by (rule upt_conv_Cons [OF l(1)])
    also have "[Suc 0..<length arr] = Suc 0 # [Suc (Suc 0)..<length arr]"
      by (rule upt_conv_Cons [OF l(2)])
    finally have eq: "[0..<length arr] = 0 # Suc 0 # [Suc (Suc 0)..<length arr]" .
    have "Poll_range p [0..<length arr] (arr, Shared) = None"
      unfolding eq
      by (simp add: Poll_body_filter_first [OF assms] Poll_body_filter_later [OF assms])
    then show ?thesis using 3 by simp
  qed
  then show "Poll_range p [0..<length arr] (arr, Shared) \<noteq> None \<longleftrightarrow>
           arr = [] \<or> (length arr = 1 \<and> accept (arr ! 0))"
    and "Poll_range p [0..<length arr] (arr, Shared) = Some (arr', h) \<Longrightarrow> arr' = arr"
    by blast+
qed

lemma Poll_change_no_filter:
  "FileChangeFilter p = None \<Longrightarrow>
     Poll_change p change =
       Some (change\<lparr>Changes :=
          map (\<lambda>c. c\<lparr>Filepath := Join [CloneDirectory (Git p), Filepath c]\<rparr>) (Changes change)\<rparr>)"
  by (simp add: Poll_change_def Poll_range_no_filter)

lemma Poll_change_filter:
  assumes "FileChangeFilter p = Some accept"
  shows "Poll_change p change =
     (if Changes change = [] \<or> (length (Changes change) = 1 \<and> accept (Changes change ! 0))
      then Some change else None)"
proof (cases "Poll_range p [0..<length (Changes change)] (Changes change, Shared)")
  case None
  with Poll_range_filter(1) [OF assms, of "Changes change"] show ?thesis
    by (simp add: Poll_change_def)
next
  case (Some st)
  obtain arr' h where st: "st = (arr', h)" by (cases st)
  with Some Poll_range_filter(2) [OF assms, of "Changes change" arr' h] have "arr' = Changes change"
    by simp
  moreover from Some Poll_range_filter(1) [OF assms, of "Changes change"]
  have "Changes change = [] \<or> (length (Changes change) = 1 \<and> accept (Changes change ! 0))"
    by simp
  ultimately show ?thesis using Some st
    by (simp add: Poll_change_def)
qed

lemma Poll_change_result:
  assumes "Poll_change p change = Some change'"
  shows "change' = change\<lparr>Changes :=
            map (\<lambda>c. c\<lparr>Filepath := (if FileChangeFilter p = None
                                      then Join [CloneDirectory (Git p), Filepath c]
                                      else Filepath c)\<rparr>)
              (filter (accepted p) (Changes change))\<rparr>"
proof (cases "FileChangeFilter p")
  case None
  then have "filter (accepted p) (Changes change) = Changes change"
    by (simp add: accepted_def)
  with assms None Poll_change_no_filter [OF None, of change] show ?thesis by simp
next
  case (Some accept)
  from assms Poll_change_filter [OF Some, of change]
  have c: "change' = change"
    and s: "Changes change = [] \<or> (length (Changes change) = 1 \<and> accept (Changes change ! 0))"
    by (auto split: if_splits)
  from s have "filter (accepted p) (Changes change) = Changes change"
    using Some by (cases "Changes change") (auto simp: accepted_def)
  with c Some show ?thesis by simp
qed

lemma Poll_changes_result:
  "Poll_changes p changes = Some out \<Longrightarrow>
     length out = length changes \<and>
     (\<forall>k<length changes. Poll_change p (changes ! k) = Some (out ! k))"
proof (induction changes arbitrary: out)
  case Nil
  then show ?case by simp
next
  case (Cons change changes)
  from Cons.prems obtain change' out' where
    o: "Poll_change p change = Some change'" "Poll_changes p changes = Some out'"
      "out = change' # out'"
    by (auto split: option.splits)
  from Cons.IH [OF o(2)] o(1,3) show ?case
    by (auto simp: nth_Cons split: nat.splits)
qed

text \<open>What \<open>Poll\<close> returns, in full. With no filter it returns every bundle with each path
  joined to the clone directory. With a filter it returns the answer of \<open>DiffRemote\<close>
  untouched when every bundle is empty or holds a single, accepted change, and panics
  otherwise.\<close>

lemma Poll_changes_no_filter:
  "FileChangeFilter p = None \<Longrightarrow>
     Poll_changes p changes =
       Some (map (\<lambda>change. change\<lparr>Changes :=
          map (\<lambda>c. c\<lparr>Filepath := Join [CloneDirectory (Git p), Filepath c]\<rparr>) (Changes change)\<rparr>)
        changes)"
  by (induction changes) (simp_all add: Poll_change_no_filter)

lemma Poll_no_filter:
  "FileChangeFilter p = None \<Longrightarrow>
     Poll p (Inr changes) =
       Ok (map (\<lambda>change. change\<lparr>Changes :=
          map (\<lambda>c. c\<lparr>Filepath := Join [CloneDirectory (Git p), Filepath c]\<rparr>) (Changes change)\<rparr>)
        changes)"
  by (simp add: Poll_def Poll_changes_no_filter)

lemma Poll_changes_filter:
  assumes "FileChangeFilter p = Some accept"
  shows "Poll_changes p changes =
     (if \<forall>change\<in>set changes.
           Changes change = [] \<or> (length (Changes change) = 1 \<and> accept (Changes change ! 0))
      then Some changes else None)"
  by (induction changes) (simp_all add: Poll_change_filter [OF assms])

lemma Poll_filter:
  assumes "FileChangeFilter p = Some accept"
  shows "Poll p (Inr changes) =
     (if \<forall>change\<in>set changes.
           Changes change = [] \<or> (length (Changes change) = 1 \<and> accept (Changes change ! 0))
      then Ok changes else Panic)"
proof (cases "changes = []")
  case True
  then show ?thesis by (simp add: Poll_def)
next
  case False
  let ?ok = "\<forall>change\<in>set changes.
           Changes change = [] \<or> (length (Changes change) = 1 \<and> accept (Changes change ! 0))"
  from False have eq: "Poll p (Inr changes) =
      (case Poll_changes p changes of None \<Rightarrow> Panic | Some changes' \<Rightarrow> Ok changes')"
    by (simp add: Poll_def)
  have pc: "Poll_changes p changes = (if ?ok then Some changes else None)"
    by (rule Poll_changes_filter [OF assms])
  show ?thesis
  proof (cases ?ok)
    case True
    with pc have "Poll_changes p changes = Some changes" by simp
    with eq True show ?thesis by simp
  next
    case False
    with pc have "Poll_changes p changes = None" by simp
    with eq False show ?thesis by simp
  qed
qed

text \<open>
  Whenever \<open>Poll\<close> returns a result, it returns one bundle per bundle of \<open>DiffRemote\<close>, in
  the same order, and the \<open>k\<close>-th bundle keeps every field other than \<open>Changes\<close>. Its
  \<open>Changes\<close> are the changes of the \<open>k\<close>-th unfiltered bundle that the filter accepts, in
  their original order, each with its original \<open>ChangeType\<close>; only \<open>Filepath\<close> may differ
  (it is joined to the clone directory when no filter is configured). With a filter
  configured a result is returned only when there was nothing to drop and no bundle held
  two changes.
\<close>

lemma Poll_result:
  assumes "Poll p (Inr changes) = Ok out"
  shows "length out = length changes \<and>
         (\<forall>k<length changes.
            ChangeBatch.more (out ! k) = ChangeBatch.more (changes ! k) \<and>
            Changes (out ! k) =
              map (\<lambda>c. c\<lparr>Filepath := (if FileChangeFilter p = None
                                        then Join [CloneDirectory (Git p), Filepath c]
                                        else Filepath c)\<rparr>)
                (filter (accepted p) (Changes (changes ! k))) \<and>
            map ChangeType (Changes (out ! k)) =
              map ChangeType (filter (accepted p) (Changes (changes ! k))))"
proof (cases "changes = []")
  case True
  with assms show ?thesis by (simp add: Poll_def)
next
  case False
  with assms have "Poll_changes p changes = Some out"
    by (simp add: Poll_def split: option.splits)
  from Poll_changes_result [OF this] have len: "length out = length changes"
    and each: "\<And>k. k < length changes \<Longrightarrow> Poll_change p (changes ! k) = Some (out ! k)"
    by blast+
  have "\<forall>k<length changes.
            ChangeBatch.more (out ! k) = ChangeBatch.more (changes ! k) \<and>
            Changes (out ! k) =
              map (\<lambda>c. c\<lparr>Filepath := (if FileChangeFilter p = None
                                        then Join [CloneDirectory (Git p), Filepath c]
                                        else Filepath c)\<rparr>)
                (filter (accepted p) (Changes (changes ! k))) \<and>
            map ChangeType (Changes (out ! k)) =
              map ChangeType (filter (accepted p) (Changes (changes ! k)))"
  proof (intro allI impI)
    fix k assume "k < length changes"
    from Poll_change_result [OF each [OF this]]
    show "ChangeBatch.more (out ! k) = ChangeBatch.more (changes ! k) \<and>
            Changes (out ! k) =
              map (\<lambda>c. c\<lparr>Filepath := (if FileChangeFilter p = None
                                        then Join [CloneDirectory (Git p), Filepath c]
                                        else Filepath c)\<rparr>)
                (filter (accepted p) (Changes (changes ! k))) \<and>
            map ChangeType (Changes (out ! k)) =
              map ChangeType (filter (accepted p) (Changes (changes ! k)))"
      by (simp add: comp_def)
  qed
  with len show ?thesis by blast
qed

lemma Poll_result_example:
  "Poll (example_config\<lparr>FileChangeFilter := Some only_creates\<rparr>) (Inr [diff_A_B]) = Ok [diff_A_B] \<and>
   map ChangeType (Changes diff_A_B) = [ChangeTypeCreate] \<and>
   filter (accepted (example_config\<lparr>FileChangeFilter := Some only_creates\<rparr>)) (Changes diff_A_B)
     = Changes diff_A_B"
proof -
  let ?p = "example_config\<lparr>FileChangeFilter := Some only_creates\<rparr>"
  have f: "FileChangeFilter ?p = Some only_creates" by simp
  have ev: "Poll ?p (Inr [diff_A_B]) = Ok [diff_A_B]"
    by (simp add: Poll_def Poll_change_filter [OF f] diff_A_B_def only_creates_def)
  from Poll_result [OF ev]
  have "Changes diff_A_B =
      map (\<lambda>c. c\<lparr>Filepath := (if FileChangeFilter ?p = None
                                then Join [CloneDirectory (Git ?p), Filepath c]
                                else Filepath c)\<rparr>)
        (filter (accepted ?p) (Changes diff_A_B))"
    by simp
  then have "filter (accepted ?p) (Changes diff_A_B) = Changes diff_A_B"
    by (simp add: diff_A_B_def accepted_def only_creates_def)
  with ev show ?thesis by (simp add: diff_A_B_def)
qed

text \<open>
  Claim C4, at an input where the code departs from it. \<open>DiffRemote\<close> answers with one
  bundle holding one change and the filter rejects every change. The claim has \<open>Poll\<close>
  return that bundle with an empty change list; \<open>Poll\<close> panics instead: the rejected change
  leaves the copy's \<open>Changes\<close> empty, and the store of the joined path at index 0 is out of
  range.
\<close>

theorem Poll_panics_when_all_rejected:
  "Poll (example_config\<lparr>FileChangeFilter := Some reject_all\<rparr>) (Inr [diff_A_B]) = Panic"
  by (simp add: Poll_def Poll_change_def Poll_body_def Let_def diff_A_B_def reject_all_def)

text \<open>
  Claim C10, at an input where the code departs from it. \<open>DiffRemote\<close> answers with one bundle
  of two changes (an update and a deletion) and the filter accepts updates only, so it
  rejects some but not all changes. The claim has \<open>Poll\<close> return normally; \<open>Poll\<close> panics: at
  index 1 the copy's \<open>Changes\<close> has been replaced by the empty slice of the rejected change.
\<close>

theorem Poll_panics_on_second_change:
  "Poll (example_config\<lparr>FileChangeFilter := Some only_updates\<rparr>) (Inr [diff_B_C]) = Panic"
  by (simp add: Poll_def Poll_change_def Poll_body_def Let_def diff_B_C_def only_updates_def
      upt_rec numeral_2_eq_2)

text \<open>\<open>Poll\<close> on top of \<open>DiffRemote\<close>, on the example history with the remote two commits
  ahead. With no filter \<open>Poll\<close> returns the two diffs, oldest first, with their paths
  joined to the clone directory. With a filter, whatever it accepts, \<open>Poll\<close> panics.\<close>

lemma DiffRemote_example_diffs: "DiffRemote example_repo ''master'' = Inr [diff_A_B, diff_B_C]"
  by (simp add: DiffRemote_example diff_A_B_def diff_B_C_def)

lemma Poll_of_DiffRemote_example_no_filter:
  "Poll example_config (DiffRemote example_repo ''master'') =
     Ok [diff_A_B\<lparr>Changes := [\<lparr>Filepath = ''/srv/repo/f1'', ChangeType = ChangeTypeCreate\<rparr>]\<rparr>,
         diff_B_C\<lparr>Changes := [\<lparr>Filepath = ''/srv/repo/f2'', ChangeType = ChangeTypeUpdate\<rparr>,
                               \<lparr>Filepath = ''/srv/repo/f3'', ChangeType = ChangeTypeDelete\<rparr>]\<rparr>]"
proof -
  have "FileChangeFilter example_config = None" by (simp add: example_config_def)
  from Poll_no_filter [OF this, of "[diff_A_B, diff_B_C]"] show ?thesis
    by (simp add: DiffRemote_example_diffs diff_A_B_def diff_B_C_def example_config_def
        Join_def Clean_def Let_def)
qed

lemma Poll_of_DiffRemote_example_any_filter:
  "Poll (example_config\<lparr>FileChangeFilter := Some accept\<rparr>) (DiffRemote example_repo ''master'') = Panic"
proof -
  have "FileChangeFilter (example_config\<lparr>FileChangeFilter := Some accept\<rparr>) = Some accept" by simp
  from Poll_filter [OF this, of "[diff_A_B, diff_B_C]"] show ?thesis
    by (simp add: DiffRemote_example_diffs diff_B_C_def)
qed

text \<open>
  Claim C1, at an input where the code departs from it. The remote branch head is two
  commits ahead of the local head and a filter that accepts every change is configured.
  The claim has \<open>Poll\<close> return exactly two diffs, oldest first, one per step of the walked
  list. \<open>DiffRemote\<close> does return them, but \<open>Poll\<close> panics in its filter stage on the second,
  which holds two changes: the store of the joined path at index 1 goes to the
  one-element slice built for the accepted change.
\<close>

theorem Poll_panics_on_two_new_commits:
  "Poll (example_config\<lparr>FileChangeFilter := Some accept_all\<rparr>) (DiffRemote example_repo ''master'')
     = Panic"
  by (rule Poll_of_DiffRemote_example_any_filter)

text \<open>
  Claim C5, at an input where the code departs from it. \<open>DiffRemote\<close> answers with one bundle
  of two changes and the filter accepts both. The claim has both survive, in their
  original order and with their types, in that bundle. \<open>Poll\<close> panics at index 1 and
  returns nothing.
\<close>

theorem Poll_panics_on_two_survivors:
  "Poll (example_config\<lparr>FileChangeFilter := Some accept_all\<rparr>) (Inr [diff_B_C]) = Panic"
  by (simp add: Poll_def Poll_change_def Poll_body_def Let_def diff_B_C_def accept_all_def
      upt_rec numeral_2_eq_2)

text \<open>With a filter configured, \<open>Poll\<close> returns a result only when no bundle holds two
  changes and the filter rejects nothing; the result is then the answer of \<open>DiffRemote\<close>
  as it was.\<close>

lemma Poll_filter_result_unfiltered:
  assumes "FileChangeFilter p = Some accept" and "Poll p (Inr changes) = Ok out"
  shows "out = changes \<and>
         (\<forall>change\<in>set changes. length (Changes change) \<le> 1 \<and>
            filter accept (Changes change) = Changes change)"
proof -
  from assms Poll_filter [OF assms(1), of changes]
  have ok: "\<forall>change\<in>set changes.
           Changes change = [] \<or> (length (Changes change) = 1 \<and> accept (Changes change ! 0))"
    and "out = changes"
    by (auto split: if_splits)
  have "\<forall>change\<in>set changes. length (Changes change) \<le> 1 \<and>
            filter accept (Changes change) = Changes change"
  proof
    fix change assume "change \<in> set changes"
    with ok have "Changes change = [] \<or> (length (Changes change) = 1 \<and> accept (Changes change ! 0))"
      by blast
    then show "length (Changes change) \<le> 1 \<and> filter accept (Changes change) = Changes change"
      by (cases "Changes change") auto
  qed
  with \<open>out = changes\<close> show ?thesis by blast
qed

section \<open>Properties of the tick loop\<close>

text \<open>
  Claim C6. When \<open>Poll\<close> returns an error at a fire of the ticker, the loop has no effect
  for that fire (no call of the handler, no send) and goes back to waiting: a run
  consisting of that fire alone ends waiting with no effect, and a run with that fire
  anywhere in it has the effects and the end of the run without it.
\<close>

theorem loop_skips_failed_tick:
  assumes "Poll p diffRemote = Err err"
  shows "loop p [ticker_C diffRemote] = ([], Waiting) \<and>
         loop p (ticker_C diffRemote # after) = loop p after \<and>
         loop p (before @ ticker_C diffRemote # after) = loop p (before @ after)"
proof -
  have one: "\<And>events. loop p (ticker_C diffRemote # events) = loop p events"
    using assms by simp
  have "loop p (before @ ticker_C diffRemote # after) = loop p (before @ after)"
  proof (induction before)
    case Nil
    show ?case using one by simp
  next
    case (Cons ev before)
    show ?case
    proof (cases ev)
      case (ticker_C d)
      with Cons.IH show ?thesis by (simp split: outcome.splits)
    next
      case closer_recv
      then show ?thesis by simp
    qed
  qed
  with one show ?thesis by simp
qed

theorem loop_skips_failed_tick_witness:
  "loop (example_config\<lparr>HandleCommit := Some HandleCommitFunc\<rparr>)
     [ticker_C (Inr [diff_A_B]), ticker_C (Inl (OtherError ''fetch'')), ticker_C (Inr [diff_B_C]),
      closer_recv]
   = loop (example_config\<lparr>HandleCommit := Some HandleCommitFunc\<rparr>)
     [ticker_C (Inr [diff_A_B]), ticker_C (Inr [diff_B_C]), closer_recv]"
proof -
  have "Poll (example_config\<lparr>HandleCommit := Some HandleCommitFunc\<rparr>)
          (Inl (OtherError ''fetch'') :: error + CommitDiff list) = Err (OtherError ''fetch'')"
    by (simp add: Poll_def)
  from loop_skips_failed_tick [OF this, of "[ticker_C (Inr [diff_B_C]), closer_recv]"
      "[ticker_C (Inr [diff_A_B])]"]
  show ?thesis by simp
qed

section \<open>Properties of the start of the poller\<close>

text \<open>
  Claim C7, at an input where the code departs from it. A handler is configured and the
  clone directory is the absolute path \<^verbatim>\<open>/srv/repo\<close> (the default clone directory, the
  working directory, is absolute too). The claim has the enumeration leave out the
  \<^verbatim>\<open>.git\<close> directory and what is in it. The patterns \<open>onStart\<close> matches against,
  \<^verbatim>\<open>*/.git\<close> and \<^verbatim>\<open>*/.git/*\<close>, match only a path with exactly one component before
  \<^verbatim>\<open>.git\<close>, so here the bundle handed to the handler holds an \<open>Init\<close> change for the
  \<^verbatim>\<open>.git\<close> directory and one for the file in it.
\<close>

theorem onStart_enumerates_git_directory:
  "onStart (example_config\<lparr>HandleCommit := Some HandleCommitFunc\<rparr>) (Inr commit_A) working_tree =
     (None,
      [HandleCommit_call
         \<lparr>Changes = [\<lparr>Filepath = ''/srv/repo'', ChangeType = ChangeTypeInit\<rparr>,
                     \<lparr>Filepath = ''/srv/repo/.git'', ChangeType = ChangeTypeInit\<rparr>,
                     \<lparr>Filepath = ''/srv/repo/.git/HEAD'', ChangeType = ChangeTypeInit\<rparr>,
                     \<lparr>Filepath = ''/srv/repo/a.txt'', ChangeType = ChangeTypeInit\<rparr>],
          Sha = ''A'', When = 100\<rparr>])"
  by (simp add: onStart_def example_config_def working_tree_def Walk_def onStart_walkFn_def
      Join_def Clean_def commit_A_def Let_def)

text \<open>With a clone directory of one relative component the patterns do match, and the
  directory is left out.\<close>

lemma onStart_skips_git_directory_of_short_relative_path:
  "onStart (example_config\<lparr>HandleCommit := Some HandleCommitFunc,
              Git := (Git example_config)\<lparr>CloneDirectory := ''repo''\<rparr>\<rparr>) (Inr commit_A) working_tree =
     (None,
      [HandleCommit_call
         \<lparr>Changes = [\<lparr>Filepath = ''repo'', ChangeType = ChangeTypeInit\<rparr>,
                     \<lparr>Filepath = ''repo/a.txt'', ChangeType = ChangeTypeInit\<rparr>],
          Sha = ''A'', When = 100\<rparr>])"
  by (simp add: onStart_def example_config_def working_tree_def Walk_def onStart_walkFn_def
      Join_def Clean_def commit_A_def Let_def)

section \<open>Properties of cloning\<close>

text \<open>
  Claim C9, at an input where the code departs from it. A repository exists on disk at the
  configured clone directory. The claim has \<open>Clone\<close> open it, and otherwise clone into
  that directory. \<open>Clone\<close> of \<^verbatim>\<open>unnamed/part_001\<close> clones the remote into new in-memory
  storage: it returns the fresh in-memory clone, and the disk is neither read nor written.
\<close>

theorem Clone_ignores_directory:
  "Clone example_World ''git@github.com:eddieowens/gpoll.git'' ''master'' ''/srv/repo'' =
     (Inr \<lparr>Storer = InMemory, Content = ''fresh clone''\<rparr>, example_World)"
  by (simp add: Clone_def git_Clone_memory_def example_World_def)

text \<open>\<open>Clone\<close> of \<^verbatim>\<open>git.go\<close> does what the claim says: it opens the repository on disk,
  and where there is none it clones into the directory.\<close>

lemma Clone_git_go_opens_existing:
  "Clone_git_go example_World ''git@github.com:eddieowens/gpoll.git'' ''master'' ''/srv/repo'' =
     (Inr \<lparr>Storer = OnDisk ''/srv/repo'', Content = ''existing clone''\<rparr>, example_World)"
  by (simp add: Clone_git_go_def PlainClone_def PlainOpen_def example_World_def)

lemma Clone_git_go_spec:
  "Clone_git_go w remote branch directory =
     (case Disk w directory of
        Some existing \<Rightarrow> (Inr \<lparr>Storer = OnDisk directory, Content = existing\<rparr>, w)
      | None \<Rightarrow>
          (case Origin w remote branch of
             Inl err \<Rightarrow> (if err = ErrRepositoryAlreadyExists then (Inl ErrRepositoryNotExists, w)
                         else (Inl err, w))
           | Inr content \<Rightarrow>
               (Inr \<lparr>Storer = OnDisk directory, Content = content\<rparr>,
                w\<lparr>Disk := (Disk w)(directory \<mapsto> content)\<rparr>)))"
  by (simp add: Clone_git_go_def PlainClone_def PlainOpen_def split: option.splits sum.splits)

lemma Clone_never_on_disk:
  "Clone w remote branch directory = (Inr repo, w') \<Longrightarrow>
     Origin w remote branch \<noteq> Inl ErrRepositoryAlreadyExists \<Longrightarrow>
     Storer repo = InMemory \<and> w' = w"
  by (auto simp: Clone_def git_Clone_memory_def split: sum.splits if_splits)

section \<open>Properties of construction\<close>



text \<open>With no authentication at all \<open>NewPoller\<close> returns a poller too, one that
  authenticates with an empty username and password.\<close>

lemma NewPoller_accepts_missing_auth:
  "NewPoller example_os no_auth_config =
     Inr \<lparr>poller_c = make_chan 1, poller_config = no_auth_config, poller_closer = make_chan 1,
          poller_git = \<lparr>authMethod = BasicAuth [] []\<rparr>\<rparr>"
  by (simp add: NewPoller_def no_auth_config_def example_config_def validator_Struct_def
      newGit_def toAuthMethod_def usernamePassword_def)



end
